theory Spec2Isabelle
  imports Main
begin

section \<open>Data model of the service registry\<close>

text \<open>
  The registry of \<^verbatim>\<open>main.go\<close>: a \<^verbatim>\<open>Service\<close> is a name, a URL and the last
  reachability verdict; the \<^verbatim>\<open>Monitor\<close> holds the slice of services and the name of
  the backing file. The mutex of the Go struct is left out of the record: the functions
  below are the bodies that run while the lock is held.
  Go strings are byte sequences, so a \<open>string\<close> (a list of 8-bit characters) is one.
\<close>

record Service =
  Name :: string
  URL :: string
  Status :: bool

record Monitor =
  services :: "Service list"
  filename :: string

subsection \<open>The world outside the process\<close>

text \<open>
  Files, the network and the two output channels are state the program shares with its
  environment. A path is absent (\<open>None\<close>) or holds bytes; reads and writes of a path
  can be refused. A refused write leaves the file as it was. The answer of the network to
  the \<open>n\<close>-th request may depend on \<open>n\<close>, on the client's timeout and on the URL.
\<close>

datatype os_error = ErrNotExist | ErrPermission

datatype get_error = ErrTimeout | ErrDNS | ErrTLS | ErrTransport

record HttpResponse =
  StatusCode :: nat
  RespBody :: string

record Client =
  Timeout :: int

datatype json_error = SyntaxError | UnmarshalTypeError string

text \<open>
  The errors that \<^verbatim>\<open>saveToFile\<close> and \<^verbatim>\<open>LoadFromFile\<close> build with
  \<^verbatim>\<open>fmt.Errorf\<close>: each carries the file name and the error it wraps.
\<close>

datatype error =
    WriteError string os_error
  | ReadError string os_error
  | ParseError string json_error

text \<open>Lines printed with \<^verbatim>\<open>fmt.Printf\<close>, and lines written with \<^verbatim>\<open>log.Printf\<close>.\<close>

datatype console_line = FileNotFound string | Loaded nat string | AddingTestServices

datatype log_line = LoadFailed error

record World =
  files :: "string \<Rightarrow> string option"
  read_denied :: "string \<Rightarrow> bool"
  write_denied :: "string \<Rightarrow> bool"
  network :: "nat \<Rightarrow> Client \<Rightarrow> string \<Rightarrow> get_error + HttpResponse"
  requests :: nat
  stdout :: "console_line list"
  logged :: "log_line list"

definition WriteFile :: "string \<Rightarrow> string \<Rightarrow> World \<Rightarrow> os_error option \<times> World" where
  "WriteFile path data w =
     (if write_denied w path then (Some ErrPermission, w)
      else (None, w\<lparr>files := (files w)(path \<mapsto> data)\<rparr>))"

definition ReadFile :: "string \<Rightarrow> World \<Rightarrow> os_error + string" where
  "ReadFile path w =
     (case files w path of
        None \<Rightarrow> Inl ErrNotExist
      | Some data \<Rightarrow> if read_denied w path then Inl ErrPermission else Inr data)"

text \<open>\<^verbatim>\<open>os.Stat\<close> followed by \<^verbatim>\<open>os.IsNotExist\<close>.\<close>

definition StatIsNotExist :: "string \<Rightarrow> World \<Rightarrow> bool" where
  "StatIsNotExist path w = (files w path = None)"

definition Printf :: "console_line \<Rightarrow> World \<Rightarrow> World" where
  "Printf l w = w\<lparr>stdout := stdout w @ [l]\<rparr>"

definition LogPrintf :: "log_line \<Rightarrow> World \<Rightarrow> World" where
  "LogPrintf l w = w\<lparr>logged := logged w @ [l]\<rparr>"

definition Second :: int where
  "Second = 1000000000"

text \<open>\<^verbatim>\<open>client.Get(url)\<close>: the world answers, and one more request has been made.\<close>

definition Get :: "Client \<Rightarrow> string \<Rightarrow> World \<Rightarrow> (get_error + HttpResponse) \<times> World" where
  "Get client url w = (network w (requests w) client url, w\<lparr>requests := Suc (requests w)\<rparr>)"

section \<open>Serialisation: \<^verbatim>\<open>json.MarshalIndent\<close> of a slice of services\<close>

text \<open>
  \<^verbatim>\<open>utf8.DecodeRuneInString\<close> on a string whose first byte is not ASCII: the number of
  bytes of the well-formed sequence at its head, \<open>0\<close> standing for the result
  \<^verbatim>\<open>(RuneError, 1)\<close> of an ill-formed one. \<open>first_info\<close> is the table of the first
  byte: the length of the sequence and the range of the second byte.
\<close>

definition first_info :: "nat \<Rightarrow> (nat \<times> nat \<times> nat) option" where
  "first_info x =
     (if 0xC2 \<le> x \<and> x \<le> 0xDF then Some (2, 0x80, 0xBF)
      else if x = 0xE0 then Some (3, 0xA0, 0xBF)
      else if 0xE1 \<le> x \<and> x \<le> 0xEC then Some (3, 0x80, 0xBF)
      else if x = 0xED then Some (3, 0x80, 0x9F)
      else if 0xEE \<le> x \<and> x \<le> 0xEF then Some (3, 0x80, 0xBF)
      else if x = 0xF0 then Some (4, 0x90, 0xBF)
      else if 0xF1 \<le> x \<and> x \<le> 0xF3 then Some (4, 0x80, 0xBF)
      else if x = 0xF4 then Some (4, 0x80, 0x8F)
      else None)"

definition in_range :: "nat \<Rightarrow> nat \<Rightarrow> char \<Rightarrow> bool" where
  "in_range lo hi c = (lo \<le> of_char c \<and> of_char c \<le> hi)"

definition rune_len :: "string \<Rightarrow> nat" where
  "rune_len s =
     (case s of
        [] \<Rightarrow> 0
      | c # cs \<Rightarrow>
          (case first_info (of_char c) of
             None \<Rightarrow> 0
           | Some (sz, lo, hi) \<Rightarrow>
               if length s < sz then 0
               else if \<not> in_range lo hi (s ! 1) then 0
               else if sz \<le> 2 then 2
               else if \<not> in_range 0x80 0xBF (s ! 2) then 0
               else if sz \<le> 3 then 3
               else if \<not> in_range 0x80 0xBF (s ! 3) then 0
               else 4))"

definition hex :: "nat \<Rightarrow> char" where
  "hex n = ''0123456789abcdef'' ! n"

text \<open>
  \<^verbatim>\<open>htmlSafeSet\<close>: the ASCII bytes written as they are. \<^verbatim>\<open>json.Marshal\<close> escapes
  the control bytes, the quote, the backslash and, since it escapes HTML, \<^verbatim>\<open><\<close>,
  \<^verbatim>\<open>>\<close> and \<^verbatim>\<open>&\<close>.
\<close>

definition htmlSafe :: "char \<Rightarrow> bool" where
  "htmlSafe c =
     (0x20 \<le> (of_char c :: nat) \<and> c \<noteq> CHR 0x22 \<and> c \<noteq> CHR 0x5C
      \<and> c \<noteq> CHR ''<'' \<and> c \<noteq> CHR ''>'' \<and> c \<noteq> CHR ''&'')"

text \<open>
  The body of a JSON string as the encoder of Go 1.21 (the version of the Dockerfile)
  writes it: an ill-formed byte becomes the six characters of the escape of U+FFFD, the
  line and paragraph separators U+2028 and U+2029 are escaped, every other well-formed
  sequence is copied.
\<close>

fun escape :: "string \<Rightarrow> string" where
  "escape [] = []"
| "escape (c # cs) =
     (if (of_char c :: nat) < 0x80 then
        (if htmlSafe c then [c]
         else if c = CHR 0x5C \<or> c = CHR 0x22 then [CHR 0x5C, c]
         else if c = CHR 0x0A then [CHR 0x5C, CHR ''n'']
         else if c = CHR 0x0D then [CHR 0x5C, CHR ''r'']
         else if c = CHR 0x09 then [CHR 0x5C, CHR ''t'']
         else [CHR 0x5C, CHR ''u'', CHR ''0'', CHR ''0'',
               hex (of_char c div 16), hex (of_char c mod 16)]) @ escape cs
      else if rune_len (c # cs) = 0 then CHR 0x5C # ''ufffd'' @ escape cs
      else if take 3 (c # cs) = [CHR 0xE2, CHR 0x80, CHR 0xA8]
        then CHR 0x5C # ''u2028'' @ escape (drop 2 cs)
      else if take 3 (c # cs) = [CHR 0xE2, CHR 0x80, CHR 0xA9]
        then CHR 0x5C # ''u2029'' @ escape (drop 2 cs)
      else take (rune_len (c # cs)) (c # cs) @ escape (drop (rune_len (c # cs) - 1) cs))"

text \<open>
  \<^verbatim>\<open>utf8.ValidString\<close>, and the string the encoder and the decoder make of an arbitrary
  one: every ill-formed byte replaced by the three bytes of U+FFFD.
\<close>

fun ValidString :: "string \<Rightarrow> bool" where
  "ValidString [] = True"
| "ValidString (c # cs) =
     (if (of_char c :: nat) < 0x80 then ValidString cs
      else if rune_len (c # cs) = 0 then False
      else ValidString (drop (rune_len (c # cs) - 1) cs))"

fun coerce :: "string \<Rightarrow> string" where
  "coerce [] = []"
| "coerce (c # cs) =
     (if (of_char c :: nat) < 0x80 then c # coerce cs
      else if rune_len (c # cs) = 0 then [CHR 0xEF, CHR 0xBF, CHR 0xBD] @ coerce cs
      else take (rune_len (c # cs)) (c # cs) @ coerce (drop (rune_len (c # cs) - 1) cs))"

text \<open>
  A well-formed sequence of \<open>n\<close> bytes at the head of \<open>c # cs\<close>, said without the
  decoder: the first byte announces \<open>n\<close> bytes, they are there, and each continuation
  byte is in its range.
\<close>

definition well_formed :: "nat \<Rightarrow> char \<Rightarrow> string \<Rightarrow> bool" where
  "well_formed n c cs =
     (\<exists>lo hi. first_info (of_char c) = Some (n, lo, hi) \<and> n \<le> length cs + 1
        \<and> in_range lo hi (cs ! 0)
        \<and> (3 \<le> n \<longrightarrow> in_range 0x80 0xBF (cs ! 1))
        \<and> (4 \<le> n \<longrightarrow> in_range 0x80 0xBF (cs ! 2)))"

definition quoted :: "string \<Rightarrow> string" where
  "quoted s = CHR 0x22 # escape s @ [CHR 0x22]"

definition bool_text :: "bool \<Rightarrow> string" where
  "bool_text b = (if b then ''true'' else ''false'')"

text \<open>
  One element of the array, as \<^verbatim>\<open>MarshalIndent(v, "", "  ")\<close> lays it out at depth
  one: the fields in the order of the struct, under the names of their tags.
\<close>

definition Service_text :: "Service \<Rightarrow> string" where
  "Service_text s =
     ''{\<newline>    '' @ quoted ''name'' @ '': '' @ quoted (Name s) @
     '',\<newline>    '' @ quoted ''url'' @ '': '' @ quoted (URL s) @
     '',\<newline>    '' @ quoted ''status'' @ '': '' @ bool_text (Status s) @
     ''\<newline>  }''"

fun elements_text :: "Service list \<Rightarrow> string" where
  "elements_text [] = []"
| "elements_text [s] = Service_text s"
| "elements_text (s # t # ss) = Service_text s @ '',\<newline>  '' @ elements_text (t # ss)"

definition MarshalIndent :: "Service list \<Rightarrow> string" where
  "MarshalIndent xs =
     (if xs = [] then ''[]'' else ''[\<newline>  '' @ elements_text xs @ ''\<newline>]'')"

section \<open>Parsing: the scanner and the decoder of \<^verbatim>\<open>encoding/json\<close>\<close>

text \<open>
  The decoder of the library reads the text with a scanner, a machine fed one byte at a
  time, and stores what it reads in the Go value it was given. The model splits the two:
  the scanner builds the JSON value of the text, with strings unquoted and numbers kept
  as their literals, and the decoder stores that value. The library is not part of the
  repository; the model follows its behaviour in Go 1.21.
\<close>

datatype json =
    JNull | JBool bool | JNumber string | JString string
  | JArray "json list" | JObject "(string \<times> json) list"

subsection \<open>Unquoting a string literal\<close>

text \<open>
  \<open>getu4\<close> reads the four hexadecimal digits of a \<^verbatim>\<open>\uXXXX\<close> escape at the head of a
  string, \<open>EncodeRune\<close> is \<^verbatim>\<open>utf8.EncodeRune\<close>, and \<open>unquote\<close> is
  \<^verbatim>\<open>unquoteBytes\<close> on the bytes between the quotes: escapes are replaced, a pair of
  surrogate escapes becomes one character, a lone surrogate and every ill-formed byte
  become U+FFFD. The library decodes a well-formed sequence and encodes the character
  again, which gives the same bytes; the model copies them.
\<close>

definition hexval :: "char \<Rightarrow> nat option" where
  "hexval c =
     (let x = of_char c :: nat in
      if 0x30 \<le> x \<and> x \<le> 0x39 then Some (x - 0x30)
      else if 0x61 \<le> x \<and> x \<le> 0x66 then Some (x - 0x61 + 10)
      else if 0x41 \<le> x \<and> x \<le> 0x46 then Some (x - 0x41 + 10)
      else None)"

definition getu4 :: "string \<Rightarrow> nat option" where
  "getu4 s =
     (case s of
        b # u # h1 # h2 # h3 # h4 # _ \<Rightarrow>
          if b = CHR 0x5C \<and> u = CHR ''u'' then
            (case (hexval h1, hexval h2, hexval h3, hexval h4) of
               (Some x1, Some x2, Some x3, Some x4) \<Rightarrow> Some (((x1 * 16 + x2) * 16 + x3) * 16 + x4)
             | _ \<Rightarrow> None)
          else None
      | _ \<Rightarrow> None)"

definition EncodeRune :: "nat \<Rightarrow> string" where
  "EncodeRune r =
     (if r \<le> 0x7F then [char_of r]
      else if r \<le> 0x7FF then [char_of (0xC0 + r div 64), char_of (0x80 + r mod 64)]
      else if r > 0x10FFFF \<or> (0xD800 \<le> r \<and> r \<le> 0xDFFF) then [CHR 0xEF, CHR 0xBF, CHR 0xBD]
      else if r \<le> 0xFFFF then
        [char_of (0xE0 + r div 4096), char_of (0x80 + (r div 64) mod 64), char_of (0x80 + r mod 64)]
      else
        [char_of (0xF0 + r div 262144), char_of (0x80 + (r div 4096) mod 64),
         char_of (0x80 + (r div 64) mod 64), char_of (0x80 + r mod 64)])"

definition IsSurrogate :: "nat \<Rightarrow> bool" where
  "IsSurrogate r = (0xD800 \<le> r \<and> r < 0xE000)"

definition utf16_DecodeRune :: "nat \<Rightarrow> nat option \<Rightarrow> nat" where
  "utf16_DecodeRune r1 r2 =
     (case r2 of
        None \<Rightarrow> 0xFFFD
      | Some r2 \<Rightarrow>
          if 0xD800 \<le> r1 \<and> r1 < 0xDC00 \<and> 0xDC00 \<le> r2 \<and> r2 < 0xE000
          then (r1 - 0xD800) * 1024 + (r2 - 0xDC00) + 0x10000
          else 0xFFFD)"

definition unescape :: "char \<Rightarrow> char option" where
  "unescape e =
     (if e = CHR 0x22 \<or> e = CHR 0x5C \<or> e = CHR ''/'' \<or> e = CHR 0x27 then Some e
      else if e = CHR ''b'' then Some (CHR 0x08)
      else if e = CHR ''f'' then Some (CHR 0x0C)
      else if e = CHR ''n'' then Some (CHR 0x0A)
      else if e = CHR ''r'' then Some (CHR 0x0D)
      else if e = CHR ''t'' then Some (CHR 0x09)
      else None)"

fun unquote :: "string \<Rightarrow> string option" where
  "unquote [] = Some []"
| "unquote (c # cs) =
     (if c = CHR 0x5C then
        (case cs of
           [] \<Rightarrow> None
         | e # r \<Rightarrow>
             if e = CHR ''u'' then
               (case getu4 (c # cs) of
                  None \<Rightarrow> None
                | Some rr \<Rightarrow>
                    if IsSurrogate rr then
                      (if utf16_DecodeRune rr (getu4 (drop 4 r)) \<noteq> 0xFFFD
                       then map_option ((@) (EncodeRune (utf16_DecodeRune rr (getu4 (drop 4 r)))))
                              (unquote (drop 10 r))
                       else map_option ((@) (EncodeRune 0xFFFD)) (unquote (drop 4 r)))
                    else map_option ((@) (EncodeRune rr)) (unquote (drop 4 r)))
             else
               (case unescape e of
                  None \<Rightarrow> None
                | Some x \<Rightarrow> map_option ((#) x) (unquote r)))
      else if c = CHR 0x22 \<or> (of_char c :: nat) < 0x20 then None
      else if (of_char c :: nat) < 0x80 then map_option ((#) c) (unquote cs)
      else if rune_len (c # cs) = 0 then map_option ((@) (EncodeRune 0xFFFD)) (unquote cs)
      else map_option ((@) (take (rune_len (c # cs)) (c # cs)))
             (unquote (drop (rune_len (c # cs) - 1) cs)))"


subsection \<open>The scanner\<close>

text \<open>
  The stack of the scanner: what encloses the value being read. \<open>ArrayValue\<close> holds
  the elements read so far, latest first; an object is at \<open>ObjectKey\<close> when a key or,
  after a member, a comma or the closing brace is due, at \<open>ObjectColon\<close> when a key has
  been read, and at \<open>ObjectValue\<close> while the value of that key is read. The members are
  kept in the order of the text, latest first, with repeated keys.
\<close>

datatype frame =
    ArrayValue "json list"
  | ObjectKey "(string \<times> json) list"
  | ObjectColon "(string \<times> json) list" string
  | ObjectValue "(string \<times> json) list" string

text \<open>
  The states of the scanner, named after its state functions. The states inside a string
  and a number carry the bytes read so far, latest first. \<open>EndTop\<close> holds the value of
  the whole text once it is complete; \<open>AfterTop\<close> is the state after a byte other than
  white space has followed it: the scanner reports that error on the next byte or at the
  end of the input.
\<close>

datatype lex =
    BeginValue | BeginValueOrEmpty | BeginStringOrEmpty | BeginString
  | InString string | InStringEsc string | InStringEscU string nat
  | Neg string | Zero string | Digits string | Dot string | Dot0 string
  | Exp string | ExpSign string | Exp0 string
  | Literal string json
  | EndValue | EndTop json | AfterTop json | Error

type_synonym scanner = "lex \<times> frame list"

definition isSpace :: "char \<Rightarrow> bool" where
  "isSpace c = (c = CHR '' '' \<or> c = CHR 0x09 \<or> c = CHR 0x0D \<or> c = CHR 0x0A)"

definition isDigit :: "char \<Rightarrow> bool" where
  "isDigit c = (0x30 \<le> (of_char c :: nat) \<and> (of_char c :: nat) \<le> 0x39)"

definition maxNestingDepth :: nat where
  "maxNestingDepth = 10000"

definition push :: "frame \<Rightarrow> lex \<Rightarrow> frame list \<Rightarrow> scanner" where
  "push f l K = (if length K < maxNestingDepth then (l, f # K) else (Error, K))"

fun finish :: "json \<Rightarrow> frame list \<Rightarrow> scanner" where
  "finish v [] = (EndTop v, [])"
| "finish v (ArrayValue es # K) = (EndValue, ArrayValue (v # es) # K)"
| "finish v (ObjectKey ms # K) =
     (case v of JString k \<Rightarrow> (EndValue, ObjectColon ms k # K) | _ \<Rightarrow> (Error, ObjectKey ms # K))"
| "finish v (ObjectColon ms k # K) = (Error, ObjectColon ms k # K)"
| "finish v (ObjectValue ms k # K) = (EndValue, ObjectKey ((k, v) # ms) # K)"

fun stateEndValue :: "scanner \<Rightarrow> char \<Rightarrow> scanner" where
  "stateEndValue (EndTop v, K) c = (if isSpace c then (EndTop v, K) else (AfterTop v, K))"
| "stateEndValue (EndValue, ArrayValue es # K) c =
     (if isSpace c then (EndValue, ArrayValue es # K)
      else if c = CHR '','' then (BeginValue, ArrayValue es # K)
      else if c = CHR '']'' then finish (JArray (rev es)) K
      else (Error, ArrayValue es # K))"
| "stateEndValue (EndValue, ObjectColon ms k # K) c =
     (if isSpace c then (EndValue, ObjectColon ms k # K)
      else if c = CHR '':'' then (BeginValue, ObjectValue ms k # K)
      else (Error, ObjectColon ms k # K))"
| "stateEndValue (EndValue, ObjectKey ms # K) c =
     (if isSpace c then (EndValue, ObjectKey ms # K)
      else if c = CHR '','' then (BeginString, ObjectKey ms # K)
      else if c = CHR ''}'' then finish (JObject (rev ms)) K
      else (Error, ObjectKey ms # K))"
| "stateEndValue (l, K) c = (Error, K)"

definition stateBeginValue :: "frame list \<Rightarrow> char \<Rightarrow> scanner" where
  "stateBeginValue K c =
     (if isSpace c then (BeginValue, K)
      else if c = CHR ''{'' then push (ObjectKey []) BeginStringOrEmpty K
      else if c = CHR ''['' then push (ArrayValue []) BeginValueOrEmpty K
      else if c = CHR 0x22 then (InString [], K)
      else if c = CHR ''-'' then (Neg [c], K)
      else if c = CHR ''0'' then (Zero [c], K)
      else if c = CHR ''t'' then (Literal ''rue'' (JBool True), K)
      else if c = CHR ''f'' then (Literal ''alse'' (JBool False), K)
      else if c = CHR ''n'' then (Literal ''ull'' JNull, K)
      else if isDigit c then (Digits [c], K)
      else (Error, K))"

definition stateBeginString :: "frame list \<Rightarrow> char \<Rightarrow> scanner" where
  "stateBeginString K c =
     (if isSpace c then (BeginString, K)
      else if c = CHR 0x22 then (InString [], K)
      else (Error, K))"

definition state0 :: "string \<Rightarrow> frame list \<Rightarrow> char \<Rightarrow> scanner" where
  "state0 acc K c =
     (if c = CHR ''.'' then (Dot (c # acc), K)
      else if c = CHR ''e'' \<or> c = CHR ''E'' then (Exp (c # acc), K)
      else stateEndValue (finish (JNumber (rev acc)) K) c)"

definition stateESign :: "string \<Rightarrow> frame list \<Rightarrow> char \<Rightarrow> scanner" where
  "stateESign acc K c = (if isDigit c then (Exp0 (c # acc), K) else (Error, K))"

fun step :: "scanner \<Rightarrow> char \<Rightarrow> scanner" where
  "step (BeginValue, K) c = stateBeginValue K c"
| "step (BeginValueOrEmpty, K) c =
     (if isSpace c then (BeginValueOrEmpty, K)
      else if c = CHR '']'' then
        (case K of ArrayValue es # K' \<Rightarrow> finish (JArray (rev es)) K' | _ \<Rightarrow> (Error, K))
      else stateBeginValue K c)"
| "step (BeginStringOrEmpty, K) c =
     (if isSpace c then (BeginStringOrEmpty, K)
      else if c = CHR ''}'' then
        (case K of ObjectKey ms # K' \<Rightarrow> finish (JObject (rev ms)) K' | _ \<Rightarrow> (Error, K))
      else stateBeginString K c)"
| "step (BeginString, K) c = stateBeginString K c"
| "step (InString acc, K) c =
     (if c = CHR 0x22 then
        (case unquote (rev acc) of Some s \<Rightarrow> finish (JString s) K | None \<Rightarrow> (Error, K))
      else if c = CHR 0x5C then (InStringEsc (c # acc), K)
      else if (of_char c :: nat) < 0x20 then (Error, K)
      else (InString (c # acc), K))"
| "step (InStringEsc acc, K) c =
     (if c = CHR ''b'' \<or> c = CHR ''f'' \<or> c = CHR ''n'' \<or> c = CHR ''r'' \<or> c = CHR ''t''
         \<or> c = CHR 0x5C \<or> c = CHR ''/'' \<or> c = CHR 0x22 then (InString (c # acc), K)
      else if c = CHR ''u'' then (InStringEscU (c # acc) 4, K)
      else (Error, K))"
| "step (InStringEscU acc n, K) c =
     (if hexval c = None then (Error, K)
      else if n \<le> 1 then (InString (c # acc), K)
      else (InStringEscU (c # acc) (n - 1), K))"
| "step (Neg acc, K) c =
     (if c = CHR ''0'' then (Zero (c # acc), K)
      else if isDigit c then (Digits (c # acc), K)
      else (Error, K))"
| "step (Digits acc, K) c = (if isDigit c then (Digits (c # acc), K) else state0 acc K c)"
| "step (Zero acc, K) c = state0 acc K c"
| "step (Dot acc, K) c = (if isDigit c then (Dot0 (c # acc), K) else (Error, K))"
| "step (Dot0 acc, K) c =
     (if isDigit c then (Dot0 (c # acc), K)
      else if c = CHR ''e'' \<or> c = CHR ''E'' then (Exp (c # acc), K)
      else stateEndValue (finish (JNumber (rev acc)) K) c)"
| "step (Exp acc, K) c =
     (if c = CHR ''+'' \<or> c = CHR ''-'' then (ExpSign (c # acc), K) else stateESign acc K c)"
| "step (ExpSign acc, K) c = stateESign acc K c"
| "step (Exp0 acc, K) c =
     (if isDigit c then (Exp0 (c # acc), K)
      else stateEndValue (finish (JNumber (rev acc)) K) c)"
| "step (Literal rest v, K) c =
     (case rest of
        [] \<Rightarrow> (Error, K)
      | x # xs \<Rightarrow> if c \<noteq> x then (Error, K) else if xs = [] then finish v K else (Literal xs v, K))"
| "step (EndValue, K) c = stateEndValue (EndValue, K) c"
| "step (EndTop v, K) c = stateEndValue (EndTop v, K) c"
| "step (AfterTop v, K) c = (Error, K)"
| "step (Error, K) c = (Error, K)"

text \<open>
  \<^verbatim>\<open>checkValid\<close>, the first pass of \<^verbatim>\<open>json.Unmarshal\<close>: the whole text is one
  value with white space around it. Here it also returns the value.
\<close>

definition eof :: "scanner \<Rightarrow> json option" where
  "eof st = (case step st (CHR '' '') of (EndTop v, K) \<Rightarrow> Some v | _ \<Rightarrow> None)"

definition scan_start :: scanner where
  "scan_start = (BeginValue, [])"

definition checkValid :: "string \<Rightarrow> json option" where
  "checkValid data = eof (foldl step scan_start data)"

text \<open>
  \<^verbatim>\<open>Decoder.readValue\<close>, the first pass of \<^verbatim>\<open>json.NewDecoder(r).Decode\<close>: the
  bytes are scanned until the first value is complete, and what follows it in the input
  is not looked at (the byte that ends a number is looked at and left). The input that
  ends before a value is complete is an error.
\<close>

fun readValue :: "scanner \<Rightarrow> string \<Rightarrow> json option" where
  "readValue st [] = eof st"
| "readValue st (c # cs) =
     (case step st c of
        (Error, K) \<Rightarrow> None
      | (EndTop v, K) \<Rightarrow> Some v
      | (AfterTop v, K) \<Rightarrow> Some v
      | st' \<Rightarrow> readValue st' cs)"

subsection \<open>Storing a JSON value in a Go value\<close>

text \<open>
  A key of an object names the field whose tag it equals under Unicode simple case
  folding: \<open>foldName\<close> maps the ASCII letters to upper case, and the two characters
  outside ASCII that fold to an ASCII letter, U+017F to \<open>S\<close> and U+212A to \<open>K\<close>.
  All other bytes are kept, which decides the comparison with an ASCII tag as the
  library's folding does.
\<close>

fun foldName :: "string \<Rightarrow> string" where
  "foldName [] = []"
| "foldName (c # cs) =
     (if (of_char c :: nat) < 0x80 then
        (if 0x61 \<le> (of_char c :: nat) \<and> (of_char c :: nat) \<le> 0x7A
         then char_of (of_char c - (0x20 :: nat)) else c) # foldName cs
      else if take 2 (c # cs) = [CHR 0xC5, CHR 0xBF] then CHR ''S'' # foldName (drop 1 cs)
      else if take 3 (c # cs) = [CHR 0xE2, CHR 0x84, CHR 0xAA] then CHR ''K'' # foldName (drop 2 cs)
      else c # foldName cs)"

text \<open>
  A value that does not fit its target is skipped, and the first such mismatch is saved
  as the error returned at the end (\<^verbatim>\<open>UnmarshalTypeError\<close>, here with its
  \<^verbatim>\<open>Value\<close> field); decoding goes on. \<^verbatim>\<open>null\<close> leaves a string, a boolean, an
  integer or a struct as it is.
\<close>

fun kind_of :: "json \<Rightarrow> string" where
  "kind_of JNull = ''null''"
| "kind_of (JBool b) = ''bool''"
| "kind_of (JNumber n) = ''number''"
| "kind_of (JString s) = ''string''"
| "kind_of (JArray vs) = ''array''"
| "kind_of (JObject ms) = ''object''"

definition saveError :: "json_error \<Rightarrow> json_error option \<Rightarrow> json_error option" where
  "saveError e saved = (case saved of None \<Rightarrow> Some e | Some e0 \<Rightarrow> Some e0)"

definition store_string :: "json \<Rightarrow> string \<Rightarrow> json_error option \<Rightarrow> string \<times> json_error option" where
  "store_string v cur saved =
     (case v of
        JString s \<Rightarrow> (s, saved)
      | JNull \<Rightarrow> (cur, saved)
      | _ \<Rightarrow> (cur, saveError (UnmarshalTypeError (kind_of v)) saved))"

definition store_bool :: "json \<Rightarrow> bool \<Rightarrow> json_error option \<Rightarrow> bool \<times> json_error option" where
  "store_bool v cur saved =
     (case v of
        JBool b \<Rightarrow> (b, saved)
      | JNull \<Rightarrow> (cur, saved)
      | _ \<Rightarrow> (cur, saveError (UnmarshalTypeError (kind_of v)) saved))"

text \<open>
  \<^verbatim>\<open>strconv.ParseInt(s, 10, 64)\<close> on a number literal of JSON: the literal has to be
  an optional minus sign and digits, and its value has to fit 64 bits.
\<close>

definition digits_value :: "string \<Rightarrow> int" where
  "digits_value ds = foldl (\<lambda>n c. 10 * n + (of_char c - 0x30)) 0 ds"

definition ParseInt :: "string \<Rightarrow> int option" where
  "ParseInt s =
     (let neg = (s \<noteq> [] \<and> hd s = CHR ''-'');
          ds = (if neg then tl s else s)
      in if ds = [] \<or> \<not> list_all isDigit ds then None
         else
           let v = (if neg then - digits_value ds else digits_value ds)
           in if - (2 ^ 63) \<le> v \<and> v < 2 ^ 63 then Some v else None)"

definition store_int :: "json \<Rightarrow> int \<Rightarrow> json_error option \<Rightarrow> int \<times> json_error option" where
  "store_int v cur saved =
     (case v of
        JNumber n \<Rightarrow>
          (case ParseInt n of
             Some i \<Rightarrow> (i, saved)
           | None \<Rightarrow> (cur, saveError (UnmarshalTypeError (''number '' @ n)) saved))
      | JNull \<Rightarrow> (cur, saved)
      | _ \<Rightarrow> (cur, saveError (UnmarshalTypeError (kind_of v)) saved))"

text \<open>
  An object stored in a \<^verbatim>\<open>Service\<close>: its members are stored one after the other in
  the fields \<^verbatim>\<open>name\<close>, \<^verbatim>\<open>url\<close> and \<^verbatim>\<open>status\<close>; members with other keys are
  skipped, a later member overwrites an earlier one.
\<close>

definition Service_member ::
  "Service \<times> json_error option \<Rightarrow> string \<times> json \<Rightarrow> Service \<times> json_error option" where
  "Service_member st kv =
     (case st of (s, saved) \<Rightarrow>
      case kv of (k, v) \<Rightarrow>
        if foldName k = ''NAME'' then
          (case store_string v (Name s) saved of (x, e) \<Rightarrow> (s\<lparr>Name := x\<rparr>, e))
        else if foldName k = ''URL'' then
          (case store_string v (URL s) saved of (x, e) \<Rightarrow> (s\<lparr>URL := x\<rparr>, e))
        else if foldName k = ''STATUS'' then
          (case store_bool v (Status s) saved of (x, e) \<Rightarrow> (s\<lparr>Status := x\<rparr>, e))
        else (s, saved))"

definition decode_Service ::
  "json \<Rightarrow> Service \<Rightarrow> json_error option \<Rightarrow> Service \<times> json_error option" where
  "decode_Service v s saved =
     (case v of
        JObject ms \<Rightarrow> foldl Service_member (s, saved) ms
      | JNull \<Rightarrow> (s, saved)
      | _ \<Rightarrow> (s, saveError (UnmarshalTypeError (kind_of v)) saved))"

text \<open>
  An array stored in a slice of services: the slice is cut to length zero and one element
  is appended for each element of the array. The model decodes every element into the
  zero value, as the contract of \<^verbatim>\<open>Unmarshal\<close> says and as the library does on the empty
  slice of a fresh registry, the only one the program loads into.
  \<^verbatim>\<open>null\<close> empties the slice; any other value is a mismatch that leaves the slice as
  it was. Text that is not one JSON value is a syntax error, found before anything is
  stored.
\<close>

definition zero_Service :: Service where
  "zero_Service = \<lparr>Name = [], URL = [], Status = False\<rparr>"

fun decode_elements :: "json list \<Rightarrow> json_error option \<Rightarrow> Service list \<times> json_error option" where
  "decode_elements [] saved = ([], saved)"
| "decode_elements (v # vs) saved =
     (case decode_Service v zero_Service saved of
        (s, e) \<Rightarrow> (case decode_elements vs e of (ss, e') \<Rightarrow> (s # ss, e')))"

definition decode_services ::
  "json \<Rightarrow> Service list \<Rightarrow> Service list \<times> json_error option" where
  "decode_services v cur =
     (case v of
        JArray vs \<Rightarrow> decode_elements vs None
      | JNull \<Rightarrow> ([], None)
      | _ \<Rightarrow> (cur, Some (UnmarshalTypeError (kind_of v))))"

definition Unmarshal :: "string \<Rightarrow> Service list \<Rightarrow> Service list \<times> json_error option" where
  "Unmarshal data cur =
     (case checkValid data of
        None \<Rightarrow> (cur, Some SyntaxError)
      | Some v \<Rightarrow> decode_services v cur)"

text \<open>
  The JSON value that the text of a service denotes, and the service that is decoded from
  it: the strings of both are coerced to well-formed UTF-8.
\<close>

definition Service_value :: "Service \<Rightarrow> json" where
  "Service_value s =
     JObject [(''name'', JString (coerce (Name s))), (''url'', JString (coerce (URL s))),
              (''status'', JBool (Status s))]"

definition coerce_Service :: "Service \<Rightarrow> Service" where
  "coerce_Service s = \<lparr>Name = coerce (Name s), URL = coerce (URL s), Status = Status s\<rparr>"

section \<open>The registry\<close>

definition NewMonitor :: "string \<Rightarrow> Monitor" where
  "NewMonitor fname = \<lparr>services = [], filename = fname\<rparr>"

text \<open>
  \<^verbatim>\<open>saveToFile\<close>: marshalling a slice of strings and booleans cannot fail, so the
  only error is the one of the write.
\<close>

definition saveToFile :: "Monitor \<Rightarrow> World \<Rightarrow> error option \<times> World" where
  "saveToFile m w =
     (let data = MarshalIndent (services m) in
      case WriteFile (filename m) data w of
        (Some e, w') \<Rightarrow> (Some (WriteError (filename m) e), w')
      | (None, w') \<Rightarrow> (None, w'))"

text \<open>\<^verbatim>\<open>AddService\<close> calls \<^verbatim>\<open>saveToFile\<close> and drops the error it returns.\<close>

definition AddService :: "string \<Rightarrow> string \<Rightarrow> Monitor \<Rightarrow> World \<Rightarrow> Monitor \<times> World" where
  "AddService name url m w =
     (let service = \<lparr>Name = name, URL = url, Status = False\<rparr>;
          m' = m\<lparr>services := services m @ [service]\<rparr>
      in (m', snd (saveToFile m' w)))"

text \<open>
  \<^verbatim>\<open>RemoveService\<close>: the index is a Go \<^verbatim>\<open>int\<close>; no arithmetic on it can
  overflow, since \<^verbatim>\<open>index+1\<close> is computed only below the length of the slice.
\<close>

definition RemoveService :: "int \<Rightarrow> Monitor \<Rightarrow> World \<Rightarrow> bool \<times> Monitor \<times> World" where
  "RemoveService index m w =
     (if index < 0 \<or> index \<ge> int (length (services m)) then (False, m, w)
      else
        let m' = m\<lparr>services := take (nat index) (services m) @ drop (nat index + 1) (services m)\<rparr>
        in (True, m', snd (saveToFile m' w)))"

definition GetServices :: "Monitor \<Rightarrow> Service list" where
  "GetServices m = services m"

text \<open>
  \<^verbatim>\<open>LoadFromFile\<close> unmarshals into \<^verbatim>\<open>&m.services\<close>: what \<^verbatim>\<open>Unmarshal\<close> has
  stored is in the registry whether or not it then returns an error.
\<close>

definition LoadFromFile :: "Monitor \<Rightarrow> World \<Rightarrow> error option \<times> Monitor \<times> World" where
  "LoadFromFile m w =
     (if StatIsNotExist (filename m) w
      then (None, m, Printf (FileNotFound (filename m)) w)
      else
        case ReadFile (filename m) w of
          Inl e \<Rightarrow> (Some (ReadError (filename m) e), m, w)
        | Inr data \<Rightarrow>
            (case Unmarshal data (services m) of
               (ss, Some e) \<Rightarrow> (Some (ParseError (filename m) e), m\<lparr>services := ss\<rparr>, w)
             | (ss, None) \<Rightarrow>
                 (None, m\<lparr>services := ss\<rparr>, Printf (Loaded (length ss) (filename m)) w)))"

section \<open>The health checker\<close>

definition CheckService :: "string \<Rightarrow> World \<Rightarrow> bool \<times> World" where
  "CheckService url w =
     (let client = \<lparr>Timeout = 10 * Second\<rparr> in
      case Get client url w of
        (Inl err, w') \<Rightarrow> (False, w')
      | (Inr resp, w') \<Rightarrow> (StatusCode resp = 200, w'))"

text \<open>The loop of \<^verbatim>\<open>CheckAllServices\<close> over the indices of the slice, first to last.\<close>

fun check_each :: "Service list \<Rightarrow> World \<Rightarrow> Service list \<times> World" where
  "check_each [] w = ([], w)"
| "check_each (s # ss) w =
     (case CheckService (URL s) w of
        (status, w1) \<Rightarrow>
          (case check_each ss w1 of
             (ss', w2) \<Rightarrow> (s\<lparr>Status := status\<rparr> # ss', w2)))"

definition CheckAllServices :: "Monitor \<Rightarrow> World \<Rightarrow> Monitor \<times> World" where
  "CheckAllServices m w =
     (case check_each (services m) w of (ss, w') \<Rightarrow> (m\<lparr>services := ss\<rparr>, w'))"

section \<open>The HTTP handlers and the start of the process\<close>

text \<open>
  The bodies of the two POST requests are decoded by \<^verbatim>\<open>json.NewDecoder(r.Body).Decode\<close>
  into a struct that starts as the zero value.
\<close>

record AddRequest =
  req_Name :: string
  req_URL :: string

record RemoveRequest =
  req_Index :: int

definition AddRequest_member ::
  "AddRequest \<times> json_error option \<Rightarrow> string \<times> json \<Rightarrow> AddRequest \<times> json_error option" where
  "AddRequest_member st kv =
     (case st of (r, saved) \<Rightarrow>
      case kv of (k, v) \<Rightarrow>
        if foldName k = ''NAME'' then
          (case store_string v (req_Name r) saved of (x, e) \<Rightarrow> (r\<lparr>req_Name := x\<rparr>, e))
        else if foldName k = ''URL'' then
          (case store_string v (req_URL r) saved of (x, e) \<Rightarrow> (r\<lparr>req_URL := x\<rparr>, e))
        else (r, saved))"

definition RemoveRequest_member ::
  "RemoveRequest \<times> json_error option \<Rightarrow> string \<times> json \<Rightarrow> RemoveRequest \<times> json_error option" where
  "RemoveRequest_member st kv =
     (case st of (r, saved) \<Rightarrow>
      case kv of (k, v) \<Rightarrow>
        if foldName k = ''INDEX'' then
          (case store_int v (req_Index r) saved of (x, e) \<Rightarrow> (r\<lparr>req_Index := x\<rparr>, e))
        else (r, saved))"

definition Decode_AddRequest :: "string \<Rightarrow> AddRequest \<times> json_error option" where
  "Decode_AddRequest body =
     (let zero = \<lparr>req_Name = [], req_URL = []\<rparr> in
      case readValue scan_start body of
        None \<Rightarrow> (zero, Some SyntaxError)
      | Some (JObject ms) \<Rightarrow> foldl AddRequest_member (zero, None) ms
      | Some JNull \<Rightarrow> (zero, None)
      | Some v \<Rightarrow> (zero, Some (UnmarshalTypeError (kind_of v))))"

definition Decode_RemoveRequest :: "string \<Rightarrow> RemoveRequest \<times> json_error option" where
  "Decode_RemoveRequest body =
     (let zero = \<lparr>req_Index = 0\<rparr> in
      case readValue scan_start body of
        None \<Rightarrow> (zero, Some SyntaxError)
      | Some (JObject ms) \<Rightarrow> foldl RemoveRequest_member (zero, None) ms
      | Some JNull \<Rightarrow> (zero, None)
      | Some v \<Rightarrow> (zero, Some (UnmarshalTypeError (kind_of v))))"

text \<open>
  A request is its method and its body. A response is a status code, a content type and
  what was written: the text of \<^verbatim>\<open>http.Error\<close>, or the map given to the JSON encoder,
  held as the members of the object in the order of their keys. The four messages are
  the bytes of the string literals of \<^verbatim>\<open>main.go\<close>, Russian sentences in UTF-8 that say:
  the method is not supported; invalid data format; name and URL are required; invalid
  service index. The handlers work on the global \<^verbatim>\<open>monitor\<close>, which is passed here.
\<close>

record Request =
  Method :: string
  Body :: string

datatype payload = Text string | Encoded "(string \<times> json) list"

record Response =
  Code :: nat
  ContentType :: string
  Written :: payload

definition msgMethodNotAllowed :: string where
  "msgMethodNotAllowed =
     [CHR 0xD0, CHR 0x9C, CHR 0xD0, CHR 0xB5, CHR 0xD1, CHR 0x82, CHR 0xD0, CHR 0xBE,
      CHR 0xD0, CHR 0xB4, CHR 0x20, CHR 0xD0, CHR 0xBD, CHR 0xD0, CHR 0xB5, CHR 0x20,
      CHR 0xD0, CHR 0xBF, CHR 0xD0, CHR 0xBE, CHR 0xD0, CHR 0xB4, CHR 0xD0, CHR 0xB4,
      CHR 0xD0, CHR 0xB5, CHR 0xD1, CHR 0x80, CHR 0xD0, CHR 0xB6, CHR 0xD0, CHR 0xB8,
      CHR 0xD0, CHR 0xB2, CHR 0xD0, CHR 0xB0, CHR 0xD0, CHR 0xB5, CHR 0xD1, CHR 0x82,
      CHR 0xD1, CHR 0x81, CHR 0xD1, CHR 0x8F]"

definition msgInvalidFormat :: string where
  "msgInvalidFormat =
     [CHR 0xD0, CHR 0x9D, CHR 0xD0, CHR 0xB5, CHR 0xD0, CHR 0xB2, CHR 0xD0, CHR 0xB5,
      CHR 0xD1, CHR 0x80, CHR 0xD0, CHR 0xBD, CHR 0xD1, CHR 0x8B, CHR 0xD0, CHR 0xB9,
      CHR 0x20, CHR 0xD1, CHR 0x84, CHR 0xD0, CHR 0xBE, CHR 0xD1, CHR 0x80, CHR 0xD0,
      CHR 0xBC, CHR 0xD0, CHR 0xB0, CHR 0xD1, CHR 0x82, CHR 0x20, CHR 0xD0, CHR 0xB4,
      CHR 0xD0, CHR 0xB0, CHR 0xD0, CHR 0xBD, CHR 0xD0, CHR 0xBD, CHR 0xD1, CHR 0x8B,
      CHR 0xD1, CHR 0x85]"

definition msgNameURLRequired :: string where
  "msgNameURLRequired =
     [CHR 0xD0, CHR 0x9D, CHR 0xD0, CHR 0xB0, CHR 0xD0, CHR 0xB7, CHR 0xD0, CHR 0xB2,
      CHR 0xD0, CHR 0xB0, CHR 0xD0, CHR 0xBD, CHR 0xD0, CHR 0xB8, CHR 0xD0, CHR 0xB5,
      CHR 0x20, CHR 0xD0, CHR 0xB8, CHR 0x20, CHR 0x55, CHR 0x52, CHR 0x4C, CHR 0x20,
      CHR 0xD0, CHR 0xBE, CHR 0xD0, CHR 0xB1, CHR 0xD1, CHR 0x8F, CHR 0xD0, CHR 0xB7,
      CHR 0xD0, CHR 0xB0, CHR 0xD1, CHR 0x82, CHR 0xD0, CHR 0xB5, CHR 0xD0, CHR 0xBB,
      CHR 0xD1, CHR 0x8C, CHR 0xD0, CHR 0xBD, CHR 0xD1, CHR 0x8B]"

definition msgInvalidIndex :: string where
  "msgInvalidIndex =
     [CHR 0xD0, CHR 0x9D, CHR 0xD0, CHR 0xB5, CHR 0xD0, CHR 0xB2, CHR 0xD0, CHR 0xB5,
      CHR 0xD1, CHR 0x80, CHR 0xD0, CHR 0xBD, CHR 0xD1, CHR 0x8B, CHR 0xD0, CHR 0xB9,
      CHR 0x20, CHR 0xD0, CHR 0xB8, CHR 0xD0, CHR 0xBD, CHR 0xD0, CHR 0xB4, CHR 0xD0,
      CHR 0xB5, CHR 0xD0, CHR 0xBA, CHR 0xD1, CHR 0x81, CHR 0x20, CHR 0xD1, CHR 0x81,
      CHR 0xD0, CHR 0xB5, CHR 0xD1, CHR 0x80, CHR 0xD0, CHR 0xB2, CHR 0xD0, CHR 0xB8,
      CHR 0xD1, CHR 0x81, CHR 0xD0, CHR 0xB0]"

definition http_Error :: "string \<Rightarrow> nat \<Rightarrow> Response" where
  "http_Error msg code =
     \<lparr>Code = code, ContentType = ''text/plain; charset=utf-8'', Written = Text (msg @ ''\<newline>'')\<rparr>"

definition Encode :: "(string \<times> json) list \<Rightarrow> Response" where
  "Encode obj = \<lparr>Code = 200, ContentType = ''application/json'', Written = Encoded obj\<rparr>"

definition failure :: "string \<Rightarrow> Response" where
  "failure msg = Encode [(''error'', JString msg), (''success'', JBool False)]"

definition success :: Response where
  "success = Encode [(''success'', JBool True)]"

definition addServiceHandler :: "Request \<Rightarrow> Monitor \<Rightarrow> World \<Rightarrow> Response \<times> Monitor \<times> World" where
  "addServiceHandler r m w =
     (if Method r \<noteq> ''POST'' then (http_Error msgMethodNotAllowed 405, m, w)
      else
        case Decode_AddRequest (Body r) of
          (req, Some err) \<Rightarrow> (failure msgInvalidFormat, m, w)
        | (req, None) \<Rightarrow>
            if req_Name req = [] \<or> req_URL req = [] then (failure msgNameURLRequired, m, w)
            else
              (case AddService (req_Name req) (req_URL req) m w of
                 (m', w') \<Rightarrow> (success, m', w')))"

definition removeServiceHandler :: "Request \<Rightarrow> Monitor \<Rightarrow> World \<Rightarrow> Response \<times> Monitor \<times> World" where
  "removeServiceHandler r m w =
     (if Method r \<noteq> ''POST'' then (http_Error msgMethodNotAllowed 405, m, w)
      else
        case Decode_RemoveRequest (Body r) of
          (req, Some err) \<Rightarrow> (failure msgInvalidFormat, m, w)
        | (req, None) \<Rightarrow>
            (case RemoveService (req_Index req) m w of
               (False, m', w') \<Rightarrow> (failure msgInvalidIndex, m', w')
             | (True, m', w') \<Rightarrow> (success, m', w')))"

definition servicesHandler :: "Monitor \<Rightarrow> World \<Rightarrow> Service list \<times> Monitor \<times> World" where
  "servicesHandler m w =
     (case CheckAllServices m w of (m', w') \<Rightarrow> (GetServices m', m', w'))"

text \<open>
  The part of \<^verbatim>\<open>main\<close> between the parsing of the flags and the routes: the registry
  is created and loaded, an error of the load is logged, and an empty registry is seeded
  with two services. The creation of the data directory is left out: the world has no
  directories, and a write that cannot succeed is a refused write.
\<close>

definition startup :: "string \<Rightarrow> World \<Rightarrow> Monitor \<times> World" where
  "startup servicesFile w =
     (case LoadFromFile (NewMonitor servicesFile) w of
        (err, m, w1) \<Rightarrow>
          let w2 = (case err of Some e \<Rightarrow> LogPrintf (LoadFailed e) w1 | None \<Rightarrow> w1) in
          if length (GetServices m) = 0 then
            (case AddService ''Google'' ''https://www.google.com'' m (Printf AddingTestServices w2) of
               (m1, w3) \<Rightarrow> AddService ''GitHub'' ''https://github.com'' m1 w3)
          else (m, w2))"

section \<open>Concurrent calls of \<^verbatim>\<open>AddService\<close>\<close>

text \<open>
  Each HTTP request runs in a goroutine of its own. A call of \<^verbatim>\<open>AddService\<close> is modelled
  as a thread with a program counter over the statements of its body: taking the write
  lock of the mutex, reading \<^verbatim>\<open>m.services\<close>, storing the slice with the new service
  appended, \<^verbatim>\<open>saveToFile\<close>, and the deferred unlock. A configuration holds the shared
  registry, the world, the state of the lock and, for every call, its program counter and
  the slice it has read. One step of the system is one statement of one thread; a thread
  at \<open>AtLock\<close> can move only while the lock is free.
\<close>

datatype pc = AtLock | AtRead | AtWrite | AtSave | AtUnlock | Returned

record conf =
  mon :: Monitor
  world :: World
  locked :: bool
  pcs :: "pc list"
  slices :: "Service list list"

definition new_service :: "string \<times> string \<Rightarrow> Service" where
  "new_service call = \<lparr>Name = fst call, URL = snd call, Status = False\<rparr>"

inductive add_step :: "(string \<times> string) list \<Rightarrow> conf \<Rightarrow> conf \<Rightarrow> bool"
  for calls :: "(string \<times> string) list" where
  Lock: "\<lbrakk>i < length calls; pcs c ! i = AtLock; \<not> locked c\<rbrakk> \<Longrightarrow>
     add_step calls c (c\<lparr>locked := True, pcs := (pcs c)[i := AtRead]\<rparr>)"
| Read: "\<lbrakk>i < length calls; pcs c ! i = AtRead\<rbrakk> \<Longrightarrow>
     add_step calls c (c\<lparr>pcs := (pcs c)[i := AtWrite], slices := (slices c)[i := services (mon c)]\<rparr>)"
| Write: "\<lbrakk>i < length calls; pcs c ! i = AtWrite\<rbrakk> \<Longrightarrow>
     add_step calls c
       (c\<lparr>mon := (mon c)\<lparr>services := slices c ! i @ [new_service (calls ! i)]\<rparr>,
          pcs := (pcs c)[i := AtSave]\<rparr>)"
| Save: "\<lbrakk>i < length calls; pcs c ! i = AtSave\<rbrakk> \<Longrightarrow>
     add_step calls c (c\<lparr>world := snd (saveToFile (mon c) (world c)), pcs := (pcs c)[i := AtUnlock]\<rparr>)"
| Unlock: "\<lbrakk>i < length calls; pcs c ! i = AtUnlock\<rbrakk> \<Longrightarrow>
     add_step calls c (c\<lparr>locked := False, pcs := (pcs c)[i := Returned]\<rparr>)"

definition start :: "(string \<times> string) list \<Rightarrow> Monitor \<Rightarrow> World \<Rightarrow> conf" where
  "start calls m w =
     \<lparr>mon = m, world = w, locked = False, pcs = replicate (length calls) AtLock,
      slices = replicate (length calls) []\<rparr>"

text \<open>
  The invariant of the reachable configurations: the lock is held exactly while some thread
  is between its lock and its unlock, at most one thread is there, a thread about to store
  has read the current slice, and the sequence is the initial one followed by the entries
  of the threads that have stored, each once, in the order in which they stored.
\<close>

definition crit :: "pc \<Rightarrow> bool" where
  "crit p = (p = AtRead \<or> p = AtWrite \<or> p = AtSave \<or> p = AtUnlock)"

definition appended :: "pc \<Rightarrow> bool" where
  "appended p = (p = AtSave \<or> p = AtUnlock \<or> p = Returned)"

definition serial :: "(string \<times> string) list \<Rightarrow> Monitor \<Rightarrow> conf \<Rightarrow> bool" where
  "serial calls m c =
     (\<exists>order. distinct order \<and> set order = {i. i < length calls \<and> appended (pcs c ! i)}
        \<and> services (mon c) = services m @ map (\<lambda>i. new_service (calls ! i)) order)"

definition invariant :: "(string \<times> string) list \<Rightarrow> Monitor \<Rightarrow> conf \<Rightarrow> bool" where
  "invariant calls m c =
     (length (pcs c) = length calls
      \<and> (locked c = (\<exists>i<length calls. crit (pcs c ! i)))
      \<and> (\<forall>i<length calls. \<forall>j<length calls. crit (pcs c ! i) \<and> crit (pcs c ! j) \<longrightarrow> i = j)
      \<and> (\<forall>i<length calls. pcs c ! i = AtWrite \<longrightarrow> slices c ! i = services (mon c))
      \<and> length (slices c) = length calls
      \<and> serial calls m c)"

text \<open>One call run from its lock to its return with no other thread moving.\<close>

definition run_call :: "(string \<times> string) list \<Rightarrow> nat \<Rightarrow> conf \<Rightarrow> conf" where
  "run_call calls i c =
     (case AddService (fst (calls ! i)) (snd (calls ! i)) (mon c) (world c) of
        (m', w') \<Rightarrow>
          c\<lparr>mon := m', world := w', locked := False, pcs := (pcs c)[i := Returned],
            slices := (slices c)[i := services (mon c)]\<rparr>)"

section \<open>Example states\<close>

text \<open>Concrete worlds, registries, request bodies and file contents, used to run the model.\<close>

definition quiet_world :: World where
  "quiet_world =
     \<lparr>files = (\<lambda>p. None), read_denied = (\<lambda>p. False), write_denied = (\<lambda>p. False),
      network = (\<lambda>n c u. Inl ErrTransport), requests = 0, stdout = [], logged = []\<rparr>"

definition svc :: "string \<Rightarrow> string \<Rightarrow> bool \<Rightarrow> Service" where
  "svc n u b = \<lparr>Name = n, URL = u, Status = b\<rparr>"

definition denied_world :: World where
  "denied_world = quiet_world\<lparr>write_denied := (\<lambda>p. True)\<rparr>"

definition file_world :: "string \<Rightarrow> string \<Rightarrow> World" where
  "file_world path data = quiet_world\<lparr>files := (\<lambda>p. if p = path then Some data else None)\<rparr>"

definition answering :: "(get_error + HttpResponse) \<Rightarrow> World" where
  "answering a = quiet_world\<lparr>network := (\<lambda>n c u. a)\<rparr>"

definition three :: Monitor where
  "three = \<lparr>services = [svc ''a'' ''http://a'' False, svc ''b'' ''http://b'' True,
                         svc ''c'' ''http://c'' False],
             filename = ''services.json''\<rparr>"

definition one :: Monitor where
  "one = \<lparr>services = [svc ''a'' ''http://a'' False], filename = ''services.json''\<rparr>"

definition up_world :: World where
  "up_world = (file_world ''services.json'' (MarshalIndent (services one)))
     \<lparr>network := (\<lambda>n c u. Inr \<lparr>StatusCode = 200, RespBody = []\<rparr>)\<rparr>"

definition dq :: string where
  "dq = [CHR 0x22]"

definition body_empty_name :: string where
  "body_empty_name = ''{'' @ dq @ ''name'' @ dq @ '':'' @ dq @ dq @ '','' @ dq @ ''url'' @ dq @ '':''
     @ dq @ ''https://x.com'' @ dq @ ''}''"

definition body_trailing :: string where
  "body_trailing = ''{'' @ dq @ ''name'' @ dq @ '':'' @ dq @ ''a'' @ dq @ '','' @ dq @ ''url'' @ dq @ '':''
     @ dq @ ''http://a'' @ dq @ ''}}''"

definition body_index99 :: string where
  "body_index99 = ''{'' @ dq @ ''index'' @ dq @ '':99}''"

definition file_bad_status :: string where
  "file_bad_status = ''[{'' @ dq @ ''name'' @ dq @ '':'' @ dq @ ''a'' @ dq @ '','' @ dq @ ''url'' @ dq @ '':''
     @ dq @ ''http://a'' @ dq @ '','' @ dq @ ''status'' @ dq @ '':1}]''"

definition unreadable_world :: World where
  "unreadable_world = (file_world ''services.json'' ''[]'')\<lparr>read_denied := (\<lambda>p. True)\<rparr>"

definition tricky :: Monitor where
  "tricky =
     \<lparr>services =
        [\<lparr>Name = [CHR 0xD0, CHR 0x9D, CHR ''<'', CHR 0x22, CHR 0x5C, CHR 0x0A, CHR 0x01,
                  CHR 0xE2, CHR 0x80, CHR 0xA8, CHR 0xF0, CHR 0x9F, CHR 0x98, CHR 0x80],
           URL = ''http://a/?x=1&y=2'', Status = True\<rparr>,
         \<lparr>Name = [], URL = [], Status = False\<rparr>],
      filename = ''services.json''\<rparr>"

definition ill_formed :: Monitor where
  "ill_formed =
     \<lparr>services = [\<lparr>Name = [CHR 0xFF], URL = ''http://a'', Status = False\<rparr>],
      filename = ''services.json''\<rparr>"

definition two_calls :: "(string \<times> string) list" where
  "two_calls = [(''b'', ''http://b''), (''c'', ''http://c'')]"

definition second_first :: conf where
  "second_first = run_call two_calls 0 (run_call two_calls 1 (start two_calls one quiet_world))"

section \<open>Properties of the registry\<close>

lemma saveToFile_frame:
  "stdout (snd (saveToFile m w)) = stdout w"
  "logged (snd (saveToFile m w)) = logged w"
  "requests (snd (saveToFile m w)) = requests w"
  by (simp_all add: saveToFile_def WriteFile_def)

lemma saveToFile_ok:
  "fst (saveToFile m w) = None \<longleftrightarrow> \<not> write_denied w (filename m)"
  by (simp add: saveToFile_def WriteFile_def)

lemma saveToFile_files:
  "\<not> write_denied w (filename m) \<Longrightarrow>
     files (snd (saveToFile m w)) (filename m) = Some (MarshalIndent (services m))"
  by (simp add: saveToFile_def WriteFile_def)

lemma saveToFile_denied:
  "write_denied w (filename m) \<Longrightarrow> saveToFile m w = (Some (WriteError (filename m) ErrPermission), w)"
  by (simp add: saveToFile_def WriteFile_def)

lemma check_each_files: "files (snd (check_each ss w)) = files w"
proof (induction ss arbitrary: w)
  case Nil
  show ?case by simp
next
  case (Cons s ss)
  have "files (snd (CheckService (URL s) w)) = files w"
    by (simp add: CheckService_def Get_def Let_def split: sum.splits)
  with Cons show ?case
    by (simp split: prod.splits) (metis snd_conv)
qed

lemma startup_logs_load_error:
  assumes "fst (LoadFromFile (NewMonitor f) w) = Some e"
  shows "logged (snd (startup f w)) = logged w @ [LoadFailed e]"
proof -
  obtain m1 w1 where l: "LoadFromFile (NewMonitor f) w = (Some e, m1, w1)"
    using assms by (cases "LoadFromFile (NewMonitor f) w") auto
  have same: "logged w1 = logged w"
    using l by (auto simp add: LoadFromFile_def Printf_def split: if_splits sum.splits prod.splits
        option.splits)
  have add: "logged (snd (AddService n u m0 w0)) = logged w0" for n u m0 w0
    by (simp add: AddService_def Let_def saveToFile_frame)
  show ?thesis
    using l same
    by (simp add: startup_def Let_def LogPrintf_def Printf_def add case_prod_unfold)
qed

text \<open>
  Claim C1, as amended: after an \<open>AddService\<close> or a successful \<open>RemoveService\<close> whose
  write returned no error, the backing file holds exactly the serialisation of the
  in-memory sequence. \<open>CheckAllServices\<close> writes nothing: it leaves every file as it was.
\<close>

theorem write_through:
  "(fst (saveToFile (fst (AddService name url m w)) w) = None \<longrightarrow>
      files (snd (AddService name url m w)) (filename (fst (AddService name url m w)))
        = Some (MarshalIndent (services (fst (AddService name url m w)))))
   \<and> (fst (RemoveService i m w) \<and> fst (saveToFile (fst (snd (RemoveService i m w))) w) = None \<longrightarrow>
      files (snd (snd (RemoveService i m w))) (filename (fst (snd (RemoveService i m w))))
        = Some (MarshalIndent (services (fst (snd (RemoveService i m w))))))
   \<and> files (snd (CheckAllServices m w)) = files w"
proof -
  have a: "fst (saveToFile (fst (AddService name url m w)) w) = None \<longrightarrow>
      files (snd (AddService name url m w)) (filename (fst (AddService name url m w)))
        = Some (MarshalIndent (services (fst (AddService name url m w))))"
    by (simp add: AddService_def Let_def saveToFile_def WriteFile_def)
  have b: "fst (RemoveService i m w) \<and> fst (saveToFile (fst (snd (RemoveService i m w))) w) = None \<longrightarrow>
      files (snd (snd (RemoveService i m w))) (filename (fst (snd (RemoveService i m w))))
        = Some (MarshalIndent (services (fst (snd (RemoveService i m w)))))"
    by (simp add: RemoveService_def Let_def saveToFile_def WriteFile_def)
  have c: "files (snd (CheckAllServices m w)) = files w"
    using check_each_files [of "services m" w]
    by (simp add: CheckAllServices_def split: prod.splits) (metis snd_conv)
  show ?thesis using a b c by blast
qed

text \<open>
  The claim as stated fails for the sweep: the file holds the serialisation of the
  sequence before the sweep, the sweep sets the status of the entry to true, and the file
  no longer equals the serialisation of the sequence in memory.
\<close>

theorem sweep_not_written_through:
  "files up_world (filename one) = Some (MarshalIndent (services one))
   \<and> services (fst (CheckAllServices one up_world)) = [svc ''a'' ''http://a'' True]
   \<and> files (snd (CheckAllServices one up_world)) (filename (fst (CheckAllServices one up_world)))
       \<noteq> Some (MarshalIndent (services (fst (CheckAllServices one up_world))))"
  by (simp add: one_def up_world_def file_world_def quiet_world_def svc_def CheckAllServices_def
      CheckService_def Get_def Let_def MarshalIndent_def Service_text_def bool_text_def)

theorem write_through_witness:
  "fst (saveToFile (fst (AddService ''b'' ''http://b'' one quiet_world)) quiet_world) = None
   \<and> files (snd (AddService ''b'' ''http://b'' one quiet_world))
        (filename (fst (AddService ''b'' ''http://b'' one quiet_world)))
       = Some (MarshalIndent (services (fst (AddService ''b'' ''http://b'' one quiet_world))))
   \<and> fst (RemoveService 0 one quiet_world)
   \<and> fst (saveToFile (fst (snd (RemoveService 0 one quiet_world))) quiet_world) = None
   \<and> files (snd (snd (RemoveService 0 one quiet_world)))
        (filename (fst (snd (RemoveService 0 one quiet_world))))
       = Some (MarshalIndent (services (fst (snd (RemoveService 0 one quiet_world)))))"
proof -
  have a: "fst (saveToFile (fst (AddService ''b'' ''http://b'' one quiet_world)) quiet_world) = None"
    by (simp add: saveToFile_ok quiet_world_def)
  have r: "fst (RemoveService 0 one quiet_world)"
    by (simp add: RemoveService_def one_def Let_def)
  have b: "fst (saveToFile (fst (snd (RemoveService 0 one quiet_world))) quiet_world) = None"
    by (simp add: saveToFile_ok quiet_world_def)
  show ?thesis
    using write_through [of "''b''" "''http://b''" one quiet_world 0] a r b by blast
qed

text \<open>
  Claim C2: for an index inside the sequence, \<open>RemoveService\<close> returns true, deletes the
  element at the index, keeps the elements before it, moves every later element one place
  to the left and persists the new sequence (the file holds its serialisation when the
  write is not refused); for a negative index or one at or beyond the length it returns
  false and changes neither the registry nor the world, the backing file included.
\<close>

theorem RemoveService_spec:
  "(0 \<le> i \<and> i < int (length (services m)) \<longrightarrow>
      fst (RemoveService i m w)
      \<and> services (fst (snd (RemoveService i m w)))
          = take (nat i) (services m) @ drop (nat i + 1) (services m)
      \<and> length (services (fst (snd (RemoveService i m w)))) = length (services m) - 1
      \<and> (\<forall>j. j < nat i \<longrightarrow> services (fst (snd (RemoveService i m w))) ! j = services m ! j)
      \<and> (\<forall>j. nat i \<le> j \<and> j + 1 < length (services m) \<longrightarrow>
            services (fst (snd (RemoveService i m w))) ! j = services m ! (j + 1))
      \<and> snd (snd (RemoveService i m w)) = snd (saveToFile (fst (snd (RemoveService i m w))) w)
      \<and> (\<not> write_denied w (filename m) \<longrightarrow>
            files (snd (snd (RemoveService i m w))) (filename m)
              = Some (MarshalIndent (take (nat i) (services m) @ drop (nat i + 1) (services m)))))
   \<and> (i < 0 \<or> int (length (services m)) \<le> i \<longrightarrow> RemoveService i m w = (False, m, w))"
proof -
  have out: "i < 0 \<or> int (length (services m)) \<le> i \<longrightarrow> RemoveService i m w = (False, m, w)"
    by (auto simp add: RemoveService_def)
  have inr: ?thesis if h: "0 \<le> i" "i < int (length (services m))"
  proof -
    let ?m' = "m\<lparr>services := take (nat i) (services m) @ drop (nat i + 1) (services m)\<rparr>"
    have r: "RemoveService i m w = (True, ?m', snd (saveToFile ?m' w))"
      using h by (simp add: RemoveService_def Let_def)
    have n: "nat i < length (services m)" using h by simp
    have a: "\<forall>j. j < nat i \<longrightarrow> services ?m' ! j = services m ! j"
      using n by (simp add: nth_append)
    have b: "\<forall>j. nat i \<le> j \<and> j + 1 < length (services m) \<longrightarrow> services ?m' ! j = services m ! (j + 1)"
      using n by (auto simp add: nth_append min_def)
    have c: "\<not> write_denied w (filename m) \<longrightarrow>
       files (snd (saveToFile ?m' w)) (filename m) = Some (MarshalIndent (services ?m'))"
      using saveToFile_files[of w ?m'] by simp
    show ?thesis using h n a b c unfolding r by (simp add: min_def)
  qed
  show ?thesis using out inr by auto
qed

theorem RemoveService_spec_witness:
  "services (fst (snd (RemoveService 1 three quiet_world)))
       = [svc ''a'' ''http://a'' False, svc ''c'' ''http://c'' False]
   \<and> fst (RemoveService 1 three quiet_world)
   \<and> files (snd (snd (RemoveService 1 three quiet_world))) ''services.json''
       = Some (MarshalIndent [svc ''a'' ''http://a'' False, svc ''c'' ''http://c'' False])
   \<and> RemoveService 3 three quiet_world = (False, three, quiet_world)
   \<and> RemoveService (- 1) three quiet_world = (False, three, quiet_world)"
proof -
  have inside: "(0::int) \<le> 1 \<and> 1 < int (length (services three))"
    by (simp add: three_def)
  have writable: "\<not> write_denied quiet_world (filename three)"
    by (simp add: quiet_world_def)
  have rest: "take (nat 1) (services three) @ drop (nat 1 + 1) (services three)
      = [svc ''a'' ''http://a'' False, svc ''c'' ''http://c'' False]"
    by (simp add: three_def)
  have name: "filename three = ''services.json''"
    by (simp add: three_def)
  have above: "int (length (services three)) \<le> 3"
    by (simp add: three_def)
  show ?thesis
    using RemoveService_spec [of 1 three quiet_world] RemoveService_spec [of 3 three quiet_world]
      RemoveService_spec [of "- 1" three quiet_world] inside writable above
    unfolding rest name by force
qed

text \<open>
  Claim C3: for every registry state and every name and URL, \<open>AddService\<close> appends
  exactly one service with that name, that URL and status false at the tail; the entries
  that were there keep their values and positions, and the snapshot taken next is the old
  sequence followed by the new entry.
\<close>

theorem AddService_appends:
  "GetServices (fst (AddService name url m w)) =
     GetServices m @ [\<lparr>Name = name, URL = url, Status = False\<rparr>]"
  by (simp add: AddService_def GetServices_def Let_def)

text \<open>
  Claim C5, as amended: \<open>LoadFromFile\<close> succeeds and leaves the sequence as it was (empty
  in a fresh registry) when the file does not exist; it returns a read error, the sequence
  unchanged, when the file exists and cannot be read; it returns a parse error when the
  file is read and \<open>Unmarshal\<close> reports an error, and the sequence is unchanged when that
  error is a syntax error.
\<close>

theorem LoadFromFile_spec:
  "(files w (filename m) = None \<longrightarrow>
      LoadFromFile m w = (None, m, Printf (FileNotFound (filename m)) w))
   \<and> (files w (filename m) \<noteq> None \<and> read_denied w (filename m) \<longrightarrow>
      LoadFromFile m w = (Some (ReadError (filename m) ErrPermission), m, w))
   \<and> (files w (filename m) = Some data \<and> \<not> read_denied w (filename m)
        \<and> snd (Unmarshal data (services m)) = Some e \<longrightarrow>
      fst (LoadFromFile m w) = Some (ParseError (filename m) e) \<and> snd (snd (LoadFromFile m w)) = w)
   \<and> (files w (filename m) = Some data \<and> \<not> read_denied w (filename m)
        \<and> checkValid data = None \<longrightarrow>
      LoadFromFile m w = (Some (ParseError (filename m) SyntaxError), m, w))"
proof -
  have a: "files w (filename m) = None \<longrightarrow>
      LoadFromFile m w = (None, m, Printf (FileNotFound (filename m)) w)"
    by (simp add: LoadFromFile_def StatIsNotExist_def)
  have b: "files w (filename m) \<noteq> None \<and> read_denied w (filename m) \<longrightarrow>
      LoadFromFile m w = (Some (ReadError (filename m) ErrPermission), m, w)"
    by (auto simp add: LoadFromFile_def StatIsNotExist_def ReadFile_def)
  have c: "files w (filename m) = Some data \<and> \<not> read_denied w (filename m)
        \<and> snd (Unmarshal data (services m)) = Some e \<longrightarrow>
      fst (LoadFromFile m w) = Some (ParseError (filename m) e) \<and> snd (snd (LoadFromFile m w)) = w"
    by (auto simp add: LoadFromFile_def StatIsNotExist_def ReadFile_def split: prod.splits option.splits)
  have d: "files w (filename m) = Some data \<and> \<not> read_denied w (filename m)
        \<and> checkValid data = None \<longrightarrow>
      LoadFromFile m w = (Some (ParseError (filename m) SyntaxError), m, w)"
    by (simp add: LoadFromFile_def StatIsNotExist_def ReadFile_def Unmarshal_def)
  show ?thesis using a b c d by blast
qed

text \<open>
  The claim as stated fails when the file is well-formed JSON that does not fit the shape
  of a service: the number in the place of the status is a type error, a parse error is
  returned, and the sequence of the fresh registry has been replaced by the entry decoded
  up to the mismatch.
\<close>

theorem LoadFromFile_partial_decode:
  "fst (LoadFromFile (NewMonitor ''services.json'') (file_world ''services.json'' file_bad_status))
     = Some (ParseError ''services.json'' (UnmarshalTypeError ''number''))
   \<and> services (fst (snd (LoadFromFile (NewMonitor ''services.json'')
        (file_world ''services.json'' file_bad_status))))
     = [\<lparr>Name = ''a'', URL = ''http://a'', Status = False\<rparr>]
   \<and> services (NewMonitor ''services.json'') = []"
  by code_simp

theorem LoadFromFile_spec_witness:
  "files quiet_world (filename (NewMonitor ''services.json'')) = None
   \<and> LoadFromFile (NewMonitor ''services.json'') quiet_world
       = (None, NewMonitor ''services.json'',
          Printf (FileNotFound (filename (NewMonitor ''services.json''))) quiet_world)
   \<and> LoadFromFile (NewMonitor ''services.json'') unreadable_world
       = (Some (ReadError (filename (NewMonitor ''services.json'')) ErrPermission),
          NewMonitor ''services.json'', unreadable_world)
   \<and> LoadFromFile (NewMonitor ''services.json'') (file_world ''services.json'' ''{nonsense'')
       = (Some (ParseError (filename (NewMonitor ''services.json'')) SyntaxError),
          NewMonitor ''services.json'', file_world ''services.json'' ''{nonsense'')
   \<and> fst (LoadFromFile (NewMonitor ''services.json'') (file_world ''services.json'' file_bad_status))
       = Some (ParseError (filename (NewMonitor ''services.json'')) (UnmarshalTypeError ''number''))"
proof -
  have name: "filename (NewMonitor ''services.json'') = ''services.json''"
    by (simp add: NewMonitor_def)
  have absent: "files quiet_world (filename (NewMonitor ''services.json'')) = None"
    by (simp add: quiet_world_def)
  have locked: "files unreadable_world (filename (NewMonitor ''services.json'')) \<noteq> None
      \<and> read_denied unreadable_world (filename (NewMonitor ''services.json''))"
    by (simp add: unreadable_world_def file_world_def name)
  have there: "files (file_world ''services.json'' d) (filename (NewMonitor ''services.json'')) = Some d
      \<and> \<not> read_denied (file_world ''services.json'' d) (filename (NewMonitor ''services.json''))" for d
    by (simp add: file_world_def quiet_world_def name)
  have broken: "checkValid ''{nonsense'' = None"
    by code_simp
  have mismatch: "snd (Unmarshal file_bad_status (services (NewMonitor ''services.json'')))
      = Some (UnmarshalTypeError ''number'')"
    by code_simp
  have p1: "LoadFromFile (NewMonitor ''services.json'') quiet_world
       = (None, NewMonitor ''services.json'',
          Printf (FileNotFound (filename (NewMonitor ''services.json''))) quiet_world)"
    using LoadFromFile_spec [of quiet_world "NewMonitor ''services.json''"] absent by blast
  have p2: "LoadFromFile (NewMonitor ''services.json'') unreadable_world
       = (Some (ReadError (filename (NewMonitor ''services.json'')) ErrPermission),
          NewMonitor ''services.json'', unreadable_world)"
    using LoadFromFile_spec [of unreadable_world "NewMonitor ''services.json''"] locked by blast
  have p3: "LoadFromFile (NewMonitor ''services.json'') (file_world ''services.json'' ''{nonsense'')
       = (Some (ParseError (filename (NewMonitor ''services.json'')) SyntaxError),
          NewMonitor ''services.json'', file_world ''services.json'' ''{nonsense'')"
    using LoadFromFile_spec [of "file_world ''services.json'' ''{nonsense''"
        "NewMonitor ''services.json''" "''{nonsense''"] there [of "''{nonsense''"] broken
    by blast
  have p4: "fst (LoadFromFile (NewMonitor ''services.json'') (file_world ''services.json'' file_bad_status))
       = Some (ParseError (filename (NewMonitor ''services.json'')) (UnmarshalTypeError ''number''))"
    using LoadFromFile_spec [of "file_world ''services.json'' file_bad_status"
        "NewMonitor ''services.json''" file_bad_status "UnmarshalTypeError ''number''"]
      there [of file_bad_status] mismatch
    by blast
  show ?thesis
    using absent p1 p2 p3 p4 by blast
qed

text \<open>
  Claim C6, as amended: \<open>AddService\<close> returns the registry with the new entry appended
  whatever the write does; the error of a failed write is dropped: nothing is written to
  the log or to the standard output, and the world is left as it was.
\<close>

theorem AddService_silent:
  "fst (AddService name url m w) = m\<lparr>services := services m @ [\<lparr>Name = name, URL = url, Status = False\<rparr>]\<rparr>
   \<and> logged (snd (AddService name url m w)) = logged w
   \<and> stdout (snd (AddService name url m w)) = stdout w
   \<and> (write_denied w (filename m) \<longrightarrow>
        fst (saveToFile (fst (AddService name url m w)) w) = Some (WriteError (filename m) ErrPermission)
        \<and> snd (AddService name url m w) = w)"
  by (simp add: AddService_def Let_def saveToFile_frame saveToFile_denied)

text \<open>
  The claim as stated fails where it says the failure is logged: the write is refused,
  \<open>saveToFile\<close> returns its error, and the log and the standard output stay empty.
\<close>

theorem AddService_failure_not_logged:
  "fst (saveToFile (fst (AddService ''a'' ''http://a'' (NewMonitor ''services.json'') denied_world))
        denied_world) = Some (WriteError ''services.json'' ErrPermission)
   \<and> logged (snd (AddService ''a'' ''http://a'' (NewMonitor ''services.json'') denied_world)) = []
   \<and> stdout (snd (AddService ''a'' ''http://a'' (NewMonitor ''services.json'') denied_world)) = []"
  by (simp add: AddService_def Let_def saveToFile_def WriteFile_def NewMonitor_def
      denied_world_def quiet_world_def)

theorem AddService_silent_witness:
  "write_denied denied_world (filename (NewMonitor ''services.json''))
   \<and> services (fst (AddService ''a'' ''http://a'' (NewMonitor ''services.json'') denied_world))
       = [\<lparr>Name = ''a'', URL = ''http://a'', Status = False\<rparr>]
   \<and> fst (saveToFile (fst (AddService ''a'' ''http://a'' (NewMonitor ''services.json'') denied_world))
        denied_world) = Some (WriteError (filename (NewMonitor ''services.json'')) ErrPermission)
   \<and> snd (AddService ''a'' ''http://a'' (NewMonitor ''services.json'') denied_world) = denied_world"
proof -
  have denied: "write_denied denied_world (filename (NewMonitor ''services.json''))"
    by (simp add: denied_world_def)
  have fresh: "services (NewMonitor ''services.json'') = []"
    by (simp add: NewMonitor_def)
  show ?thesis
    using AddService_silent [of "''a''" "''http://a''" "NewMonitor ''services.json''" denied_world]
      denied fresh
    by force
qed

text \<open>
  Claim C7: \<open>CheckService\<close> returns true if and only if the GET of the URL, made by a
  client whose timeout is ten seconds, is answered by a response with status code 200;
  every error of the request and every other status code give false. The result is a
  single boolean, and the body of the response is not read.
\<close>

theorem CheckService_spec:
  "fst (CheckService url w) =
     (\<exists>resp. network w (requests w) \<lparr>Timeout = 10 * Second\<rparr> url = Inr resp \<and> StatusCode resp = 200)
   \<and> (\<forall>e. network w (requests w) \<lparr>Timeout = 10 * Second\<rparr> url = Inl e \<longrightarrow> \<not> fst (CheckService url w))
   \<and> (\<forall>resp. network w (requests w) \<lparr>Timeout = 10 * Second\<rparr> url = Inr resp \<and> StatusCode resp \<noteq> 200
         \<longrightarrow> \<not> fst (CheckService url w))
   \<and> snd (CheckService url w) = w\<lparr>requests := Suc (requests w)\<rparr>"
  by (auto simp add: CheckService_def Get_def Let_def split: sum.splits)

theorem CheckService_spec_witness:
  "fst (CheckService ''http://a'' (answering (Inr \<lparr>StatusCode = 200, RespBody = ''ok''\<rparr>)))
   \<and> \<not> fst (CheckService ''http://a'' (answering (Inr \<lparr>StatusCode = 500, RespBody = ''ok''\<rparr>)))
   \<and> \<not> fst (CheckService ''http://a'' (answering (Inl ErrTimeout)))"
  using CheckService_spec [of "''http://a''" "answering (Inr \<lparr>StatusCode = 200, RespBody = ''ok''\<rparr>)"]
    CheckService_spec [of "''http://a''" "answering (Inr \<lparr>StatusCode = 500, RespBody = ''ok''\<rparr>)"]
    CheckService_spec [of "''http://a''" "answering (Inl ErrTimeout)"]
  by (simp add: answering_def quiet_world_def)

text \<open>
  Claim C8, as amended: a request whose method is not POST is answered with the HTTP
  status 405; a body from which no request can be decoded (no JSON value can be read at
  its head, or the value does not fit the request), an empty name or URL, and an index
  outside the sequence are answered with status 200 and the object of \<open>failure\<close>, whose
  messages are the Russian sentences of the source, and the registry and the world are
  unchanged.
\<close>

theorem handlers_validation:
  "(Method r \<noteq> ''POST'' \<longrightarrow>
      addServiceHandler r m w = (http_Error msgMethodNotAllowed 405, m, w)
      \<and> removeServiceHandler r m w = (http_Error msgMethodNotAllowed 405, m, w))
   \<and> (Method r = ''POST'' \<and> snd (Decode_AddRequest (Body r)) \<noteq> None \<longrightarrow>
      addServiceHandler r m w = (failure msgInvalidFormat, m, w))
   \<and> (Method r = ''POST'' \<and> snd (Decode_AddRequest (Body r)) = None
        \<and> (req_Name (fst (Decode_AddRequest (Body r))) = []
            \<or> req_URL (fst (Decode_AddRequest (Body r))) = []) \<longrightarrow>
      addServiceHandler r m w = (failure msgNameURLRequired, m, w))
   \<and> (Method r = ''POST'' \<and> snd (Decode_RemoveRequest (Body r)) \<noteq> None \<longrightarrow>
      removeServiceHandler r m w = (failure msgInvalidFormat, m, w))
   \<and> (Method r = ''POST'' \<and> snd (Decode_RemoveRequest (Body r)) = None
        \<and> (req_Index (fst (Decode_RemoveRequest (Body r))) < 0
            \<or> int (length (services m)) \<le> req_Index (fst (Decode_RemoveRequest (Body r)))) \<longrightarrow>
      removeServiceHandler r m w = (failure msgInvalidIndex, m, w))
   \<and> (readValue scan_start (Body r) = None \<longrightarrow>
      snd (Decode_AddRequest (Body r)) = Some SyntaxError
      \<and> snd (Decode_RemoveRequest (Body r)) = Some SyntaxError)
   \<and> Code (failure msg) = 200
   \<and> Written (failure msg) = Encoded [(''error'', JString msg), (''success'', JBool False)]"
proof -
  have a: "Method r \<noteq> ''POST'' \<longrightarrow>
      addServiceHandler r m w = (http_Error msgMethodNotAllowed 405, m, w)
      \<and> removeServiceHandler r m w = (http_Error msgMethodNotAllowed 405, m, w)"
    by (simp add: addServiceHandler_def removeServiceHandler_def)
  have b: "Method r = ''POST'' \<and> snd (Decode_AddRequest (Body r)) \<noteq> None \<longrightarrow>
      addServiceHandler r m w = (failure msgInvalidFormat, m, w)"
    by (auto simp add: addServiceHandler_def split: prod.splits option.splits)
  have c: "Method r = ''POST'' \<and> snd (Decode_AddRequest (Body r)) = None
        \<and> (req_Name (fst (Decode_AddRequest (Body r))) = []
            \<or> req_URL (fst (Decode_AddRequest (Body r))) = []) \<longrightarrow>
      addServiceHandler r m w = (failure msgNameURLRequired, m, w)"
    by (auto simp add: addServiceHandler_def split: prod.splits option.splits)
  have d: "Method r = ''POST'' \<and> snd (Decode_RemoveRequest (Body r)) \<noteq> None \<longrightarrow>
      removeServiceHandler r m w = (failure msgInvalidFormat, m, w)"
    by (auto simp add: removeServiceHandler_def split: prod.splits option.splits)
  have e: "Method r = ''POST'' \<and> snd (Decode_RemoveRequest (Body r)) = None
        \<and> (req_Index (fst (Decode_RemoveRequest (Body r))) < 0
            \<or> int (length (services m)) \<le> req_Index (fst (Decode_RemoveRequest (Body r)))) \<longrightarrow>
      removeServiceHandler r m w = (failure msgInvalidIndex, m, w)"
    by (auto simp add: removeServiceHandler_def RemoveService_def split: prod.splits option.splits)
  have f: "readValue scan_start (Body r) = None \<longrightarrow>
      snd (Decode_AddRequest (Body r)) = Some SyntaxError
      \<and> snd (Decode_RemoveRequest (Body r)) = Some SyntaxError"
    by (simp add: Decode_AddRequest_def Decode_RemoveRequest_def)
  have g: "Code (failure msg) = 200
      \<and> Written (failure msg) = Encoded [(''error'', JString msg), (''success'', JBool False)]"
    by (simp add: failure_def Encode_def)
  show ?thesis using a b c d e f g by blast
qed

text \<open>
  The claim as stated fails in two places: the messages sent are not the English ones it
  quotes, and a body that is not a JSON text, because bytes follow its first value, is
  decoded and the service is added.
\<close>

theorem handlers_counterexample:
  "fst (addServiceHandler \<lparr>Method = ''POST'', Body = body_empty_name\<rparr> one quiet_world)
     = failure msgNameURLRequired
   \<and> failure msgNameURLRequired \<noteq> failure ''name/url required''
   \<and> failure msgInvalidFormat \<noteq> failure ''invalid data format''
   \<and> failure msgInvalidIndex \<noteq> failure ''invalid service index''
   \<and> checkValid body_trailing = None
   \<and> fst (addServiceHandler \<lparr>Method = ''POST'', Body = body_trailing\<rparr> one quiet_world) = success
   \<and> services (fst (snd (addServiceHandler \<lparr>Method = ''POST'', Body = body_trailing\<rparr> one quiet_world)))
     = services one @ [\<lparr>Name = ''a'', URL = ''http://a'', Status = False\<rparr>]"
proof -
  have empty: "Decode_AddRequest body_empty_name
      = (\<lparr>req_Name = [], req_URL = ''https://x.com''\<rparr>, None)"
    by code_simp
  have trailing: "Decode_AddRequest body_trailing
      = (\<lparr>req_Name = ''a'', req_URL = ''http://a''\<rparr>, None)"
    by code_simp
  have invalid: "checkValid body_trailing = None"
    by code_simp
  have differ: "failure msgNameURLRequired \<noteq> failure ''name/url required''
      \<and> failure msgInvalidFormat \<noteq> failure ''invalid data format''
      \<and> failure msgInvalidIndex \<noteq> failure ''invalid service index''"
    by (simp add: failure_def Encode_def msgNameURLRequired_def msgInvalidFormat_def
        msgInvalidIndex_def)
  show ?thesis
    using empty trailing invalid differ
    by (simp add: addServiceHandler_def AddService_def Let_def)
qed

theorem handlers_validation_witness:
  "addServiceHandler \<lparr>Method = ''GET'', Body = []\<rparr> one quiet_world
     = (http_Error msgMethodNotAllowed 405, one, quiet_world)
   \<and> addServiceHandler \<lparr>Method = ''POST'', Body = ''{nonsense''\<rparr> one quiet_world
     = (failure msgInvalidFormat, one, quiet_world)
   \<and> addServiceHandler \<lparr>Method = ''POST'', Body = body_empty_name\<rparr> one quiet_world
     = (failure msgNameURLRequired, one, quiet_world)
   \<and> removeServiceHandler \<lparr>Method = ''POST'', Body = ''{nonsense''\<rparr> one quiet_world
     = (failure msgInvalidFormat, one, quiet_world)
   \<and> removeServiceHandler \<lparr>Method = ''POST'', Body = body_index99\<rparr> one quiet_world
     = (failure msgInvalidIndex, one, quiet_world)"
proof -
  have get: "Method \<lparr>Method = ''GET'', Body = []\<rparr> \<noteq> ''POST''"
    by simp
  have noval: "readValue scan_start ''{nonsense'' = None"
    by code_simp
  have empty: "Decode_AddRequest body_empty_name
      = (\<lparr>req_Name = [], req_URL = ''https://x.com''\<rparr>, None)"
    by code_simp
  have far: "Decode_RemoveRequest body_index99 = (\<lparr>req_Index = 99\<rparr>, None)"
    by code_simp
  have short: "int (length (services one)) \<le> 99"
    by (simp add: one_def)
  show ?thesis
    using handlers_validation [of "\<lparr>Method = ''GET'', Body = []\<rparr>" one quiet_world]
      handlers_validation [of "\<lparr>Method = ''POST'', Body = ''{nonsense''\<rparr>" one quiet_world]
      handlers_validation [of "\<lparr>Method = ''POST'', Body = body_empty_name\<rparr>" one quiet_world]
      handlers_validation [of "\<lparr>Method = ''POST'', Body = body_index99\<rparr>" one quiet_world]
      get noval empty far short
    by simp
qed

text \<open>
  Claim C10: \<open>AddService\<close> checks nothing: for every name and URL, the empty strings
  included, it appends the entry with status false and persists the sequence (the file
  holds its serialisation when the write is not refused). The handler is what refuses an
  empty name or URL.
\<close>

theorem AddService_unvalidated:
  "services (fst (AddService name url m w))
     = services m @ [\<lparr>Name = name, URL = url, Status = False\<rparr>]
   \<and> (\<not> write_denied w (filename m) \<longrightarrow>
        files (snd (AddService name url m w)) (filename m)
          = Some (MarshalIndent (services m @ [\<lparr>Name = name, URL = url, Status = False\<rparr>])))
   \<and> (Method r = ''POST'' \<and> snd (Decode_AddRequest (Body r)) = None
        \<and> (req_Name (fst (Decode_AddRequest (Body r))) = []
            \<or> req_URL (fst (Decode_AddRequest (Body r))) = []) \<longrightarrow>
        addServiceHandler r m w = (failure msgNameURLRequired, m, w))"
  by (auto simp add: AddService_def Let_def saveToFile_def WriteFile_def addServiceHandler_def
      split: prod.splits option.splits)

theorem AddService_unvalidated_witness:
  "services (fst (AddService [] [] one quiet_world))
     = services one @ [\<lparr>Name = [], URL = [], Status = False\<rparr>]
   \<and> \<not> write_denied quiet_world (filename one)
   \<and> files (snd (AddService [] [] one quiet_world)) (filename one)
       = Some (MarshalIndent (services one @ [\<lparr>Name = [], URL = [], Status = False\<rparr>]))
   \<and> addServiceHandler \<lparr>Method = ''POST'', Body = body_empty_name\<rparr> one quiet_world
       = (failure msgNameURLRequired, one, quiet_world)"
proof -
  have writable: "\<not> write_denied quiet_world (filename one)"
    by (simp add: quiet_world_def)
  have decoded: "Decode_AddRequest body_empty_name
      = (\<lparr>req_Name = [], req_URL = ''https://x.com''\<rparr>, None)"
    by code_simp
  show ?thesis
    using AddService_unvalidated [of "[]" "[]" one quiet_world
        "\<lparr>Method = ''POST'', Body = body_empty_name\<rparr>"] writable decoded
    by simp
qed

section \<open>The round trip through the backing file\<close>

lemma first_info_range:
  "first_info x = Some (sz, lo, hi) \<Longrightarrow> 0x80 \<le> lo \<and> 0x80 \<le> x \<and> (sz = 2 \<or> sz = 3 \<or> sz = 4)"
  unfolding first_info_def by (simp split: if_splits)

lemma rune_len_Nil: "rune_len [] = 0"
  by (simp add: rune_len_def)

lemma rune_len_None: "first_info (of_char c) = None \<Longrightarrow> rune_len (c # cs) = 0"
  by (simp add: rune_len_def)

lemma rune_len_Some:
  "first_info (of_char c) = Some (sz, lo, hi) \<Longrightarrow>
   rune_len (c # cs) =
     (if length cs + 1 < sz then 0
      else if \<not> in_range lo hi (cs ! 0) then 0
      else if sz \<le> 2 then 2
      else if \<not> in_range 0x80 0xBF (cs ! 1) then 0
      else if sz \<le> 3 then 3
      else if \<not> in_range 0x80 0xBF (cs ! 2) then 0
      else 4)"
  by (simp add: rune_len_def numeral_2_eq_2 numeral_3_eq_3)

lemma rune_len_cases:
  "rune_len s = 0 \<or> rune_len s = 2 \<or> rune_len s = 3 \<or> rune_len s = 4"
proof (cases s)
  case Nil
  then show ?thesis by (simp add: rune_len_Nil)
next
  case (Cons c cs)
  show ?thesis
  proof (cases "first_info (of_char c)")
    case None
    then show ?thesis using Cons by (simp add: rune_len_None)
  next
    case (Some i)
    obtain sz lo hi where "i = (sz, lo, hi)" by (cases i) auto
    then show ?thesis using Cons Some by (simp add: rune_len_Some)
  qed
qed

lemma rune_len_well_formed:
  assumes "rune_len (c # cs) \<noteq> 0"
  shows "well_formed (rune_len (c # cs)) c cs"
proof -
  obtain i where i: "first_info (of_char c) = Some i"
    using assms rune_len_None [of c cs] by (cases "first_info (of_char c)") auto
  obtain sz lo hi where t: "i = (sz, lo, hi)" by (cases i) auto
  have fi: "first_info (of_char c) = Some (sz, lo, hi)" using i t by simp
  have sz: "sz = 2 \<or> sz = 3 \<or> sz = 4" using first_info_range [OF fi] by simp
  note r = rune_len_Some [OF fi, of cs]
  from sz show ?thesis
  proof (elim disjE)
    assume "sz = 2"
    then show ?thesis using assms fi r by (auto simp add: well_formed_def Suc_le_eq split: if_splits)
  next
    assume "sz = 3"
    then show ?thesis using assms fi r by (auto simp add: well_formed_def Suc_le_eq split: if_splits)
  next
    assume "sz = 4"
    then show ?thesis using assms fi r by (auto simp add: well_formed_def Suc_le_eq split: if_splits)
  qed
qed

lemma well_formed_rune_len:
  assumes "well_formed n c cs"
  shows "rune_len (c # cs) = n"
proof -
  obtain lo hi where fi: "first_info (of_char c) = Some (n, lo, hi)"
    and rest: "n \<le> length cs + 1" "in_range lo hi (cs ! 0)"
      "3 \<le> n \<longrightarrow> in_range 0x80 0xBF (cs ! 1)" "4 \<le> n \<longrightarrow> in_range 0x80 0xBF (cs ! 2)"
    using assms unfolding well_formed_def by blast
  have sz: "n = 2 \<or> n = 3 \<or> n = 4" using first_info_range [OF fi] by simp
  note r = rune_len_Some [OF fi, of cs]
  from sz show ?thesis
  proof (elim disjE)
    assume "n = 2"
    then show ?thesis using rest r by (auto simp add: Suc_le_eq)
  next
    assume "n = 3"
    then show ?thesis using rest r by (auto simp add: Suc_le_eq)
  next
    assume "n = 4"
    then show ?thesis using rest r by (auto simp add: Suc_le_eq)
  qed
qed

lemma well_formed_size: "well_formed n c cs \<Longrightarrow> (n = 2 \<or> n = 3 \<or> n = 4) \<and> n \<le> length cs + 1"
  unfolding well_formed_def using first_info_range by blast

lemma well_formed_prefix:
  assumes "well_formed n c cs"
  shows "well_formed n c (take (n - 1) cs @ r)"
proof -
  obtain lo hi where fi: "first_info (of_char c) = Some (n, lo, hi)"
    and len: "n \<le> length cs + 1" and r0: "in_range lo hi (cs ! 0)"
    and r1: "3 \<le> n \<longrightarrow> in_range 0x80 0xBF (cs ! 1)"
    and r2: "4 \<le> n \<longrightarrow> in_range 0x80 0xBF (cs ! 2)"
    using assms unfolding well_formed_def by blast
  have sz: "n = 2 \<or> n = 3 \<or> n = 4" using first_info_range [OF fi] by simp
  have nth: "i < n - 1 \<Longrightarrow> (take (n - 1) cs @ r) ! i = cs ! i" for i
    using len by (simp add: nth_append)
  have l: "n \<le> length (take (n - 1) cs @ r) + 1" using len by simp
  have a0: "in_range lo hi ((take (n - 1) cs @ r) ! 0)" using nth [of 0] sz r0 by auto
  have a1: "3 \<le> n \<longrightarrow> in_range 0x80 0xBF ((take (n - 1) cs @ r) ! 1)" using nth [of 1] sz r1 by auto
  have a2: "4 \<le> n \<longrightarrow> in_range 0x80 0xBF ((take (n - 1) cs @ r) ! 2)" using nth [of 2] sz r2 by auto
  show ?thesis unfolding well_formed_def using fi l a0 a1 a2 by blast
qed

lemma well_formed_high:
  assumes "well_formed n c cs"
  shows "(0x80::nat) \<le> of_char c" and "i < n - 1 \<Longrightarrow> (0x80::nat) \<le> of_char (cs ! i)"
proof -
  obtain lo hi where fi: "first_info (of_char c) = Some (n, lo, hi)"
    and len: "n \<le> length cs + 1" and r0: "in_range lo hi (cs ! 0)"
    and r1: "3 \<le> n \<longrightarrow> in_range 0x80 0xBF (cs ! 1)"
    and r2: "4 \<le> n \<longrightarrow> in_range 0x80 0xBF (cs ! 2)"
    using assms unfolding well_formed_def by blast
  have sz: "n = 2 \<or> n = 3 \<or> n = 4" and lo: "0x80 \<le> lo" and c: "0x80 \<le> (of_char c :: nat)"
    using first_info_range [OF fi] by simp_all
  show "(0x80::nat) \<le> of_char c" using c .
  assume i: "i < n - 1"
  then have "i = 0 \<or> (i = 1 \<and> 3 \<le> n) \<or> (i = 2 \<and> 4 \<le> n)" using sz by auto
  then show "(0x80::nat) \<le> of_char (cs ! i)"
    using r0 r1 r2 lo by (auto simp add: in_range_def)
qed

lemma rune_len_prefix:
  assumes "rune_len (c # cs) \<noteq> 0"
  shows "rune_len (c # take (rune_len (c # cs) - 1) cs @ r) = rune_len (c # cs)"
  using well_formed_rune_len [OF well_formed_prefix [OF rune_len_well_formed [OF assms]]] .

lemma hexval_hex: "k < 16 \<Longrightarrow> hexval (hex k) = Some k"
proof -
  assume "k < 16"
  then have "k = 0 \<or> k = 1 \<or> k = 2 \<or> k = 3 \<or> k = 4 \<or> k = 5 \<or> k = 6 \<or> k = 7 \<or> k = 8
      \<or> k = 9 \<or> k = 10 \<or> k = 11 \<or> k = 12 \<or> k = 13 \<or> k = 14 \<or> k = 15"
    by arith
  then show ?thesis
    by (elim disjE) (simp_all add: hex_def hexval_def)
qed

lemma hexval_digits:
  "hexval (CHR ''0'') = Some 0" "hexval (CHR ''2'') = Some 2" "hexval (CHR ''8'') = Some 8"
  "hexval (CHR ''9'') = Some 9" "hexval (CHR ''f'') = Some 15" "hexval (CHR ''d'') = Some 13"
  by (simp_all add: hexval_def)

lemma char_of_values:
  "char_of (239::nat) = CHR 0xEF" "char_of (191::nat) = CHR 0xBF" "char_of (189::nat) = CHR 0xBD"
  "char_of (226::nat) = CHR 0xE2" "char_of (128::nat) = CHR 0x80" "char_of (168::nat) = CHR 0xA8"
  "char_of (169::nat) = CHR 0xA9"
  by (simp_all add: char_of_def bit_numeral_simps bit_Suc_0_iff)

lemma EncodeRune_values:
  "EncodeRune 0xFFFD = [CHR 0xEF, CHR 0xBF, CHR 0xBD]"
  "EncodeRune 0x2028 = [CHR 0xE2, CHR 0x80, CHR 0xA8]"
  "EncodeRune 0x2029 = [CHR 0xE2, CHR 0x80, CHR 0xA9]"
  by (simp_all add: EncodeRune_def char_of_values)

lemma EncodeRune_ascii: "(of_char c :: nat) < 0x80 \<Longrightarrow> EncodeRune (of_char c) = [c]"
  by (simp add: EncodeRune_def)

lemma unquote_plain:
  "\<lbrakk>(of_char c :: nat) < 0x80; htmlSafe c\<rbrakk> \<Longrightarrow> unquote (c # r) = map_option ((#) c) (unquote r)"
  by (auto simp add: htmlSafe_def)

lemma unquote_high:
  assumes "rune_len (c # cs) \<noteq> 0"
  shows "unquote (c # take (rune_len (c # cs) - 1) cs @ r)
     = map_option ((@) (c # take (rune_len (c # cs) - 1) cs)) (unquote r)"
proof -
  let ?n = "rune_len (c # cs)"
  have wf: "well_formed ?n c cs" using rune_len_well_formed [OF assms] .
  have hi: "(0x80::nat) \<le> of_char c" using well_formed_high(1) [OF wf] .
  have c: "c \<noteq> CHR 0x5C" "c \<noteq> CHR 0x22" "\<not> (of_char c :: nat) < 0x20" "\<not> (of_char c :: nat) < 0x80"
    using hi by auto
  have n: "?n \<le> length cs + 1" "?n = 2 \<or> ?n = 3 \<or> ?n = 4" using well_formed_size [OF wf] by auto
  have p: "rune_len (c # take (?n - 1) cs @ r) = ?n" using rune_len_prefix [OF assms] .
  have l: "length (take (?n - 1) cs) = ?n - 1" using n by auto
  have t: "take ?n (c # take (?n - 1) cs @ r) = c # take (?n - 1) cs"
    using n l by (cases ?n) auto
  have d: "drop (?n - 1) (take (?n - 1) cs @ r) = r" using l by simp
  show ?thesis
    using c p assms t d by (simp del: take_Cons' drop_Cons')
qed

lemma unquote_escaped:
  "e = CHR 0x5C \<or> e = CHR 0x22 \<Longrightarrow>
     unquote (CHR 0x5C # e # r) = map_option ((#) e) (unquote r)"
  by (auto simp add: unescape_def)

lemma unquote_control:
  "unquote (CHR 0x5C # CHR ''n'' # r) = map_option ((#) (CHR 0x0A)) (unquote r)"
  "unquote (CHR 0x5C # CHR ''r'' # r) = map_option ((#) (CHR 0x0D)) (unquote r)"
  "unquote (CHR 0x5C # CHR ''t'' # r) = map_option ((#) (CHR 0x09)) (unquote r)"
  by (simp_all add: unescape_def)

lemma getu4_00:
  assumes "b < 0x80"
  shows "getu4 (CHR 0x5C # CHR ''u'' # CHR ''0'' # CHR ''0'' # hex (b div 16) # hex (b mod 16) # r)
     = Some b"
proof -
  have "b div 16 < 16" "b mod 16 < 16" using assms by auto
  then have h: "hexval (hex (b div 16)) = Some (b div 16)" "hexval (hex (b mod 16)) = Some (b mod 16)"
    using hexval_hex by auto
  show ?thesis by (simp add: getu4_def h hexval_digits)
qed

lemma unquote_u00:
  assumes "(of_char c :: nat) < 0x80"
  shows "unquote (CHR 0x5C # CHR ''u'' # CHR ''0'' # CHR ''0''
            # hex (of_char c div 16) # hex (of_char c mod 16) # r)
     = map_option ((#) c) (unquote r)"
proof -
  have s: "\<not> IsSurrogate (of_char c)" using assms by (simp add: IsSurrogate_def)
  have "map_option ((@) [c]) (unquote r) = map_option ((#) c) (unquote r)"
    by (cases "unquote r") auto
  then show ?thesis
    using getu4_00 [OF assms, of r] s EncodeRune_ascii [OF assms] by simp
qed

lemma getu4_values:
  "getu4 (CHR 0x5C # CHR ''u'' # CHR ''f'' # CHR ''f'' # CHR ''f'' # CHR ''d'' # r) = Some 0xFFFD"
  "getu4 (CHR 0x5C # CHR ''u'' # CHR ''2'' # CHR ''0'' # CHR ''2'' # CHR ''8'' # r) = Some 0x2028"
  "getu4 (CHR 0x5C # CHR ''u'' # CHR ''2'' # CHR ''0'' # CHR ''2'' # CHR ''9'' # r) = Some 0x2029"
  by (simp_all add: getu4_def hexval_digits)

lemma unquote_fffd:
  "unquote (CHR 0x5C # CHR ''u'' # CHR ''f'' # CHR ''f'' # CHR ''f'' # CHR ''d'' # r)
     = map_option ((@) [CHR 0xEF, CHR 0xBF, CHR 0xBD]) (unquote r)"
  by (simp add: getu4_values IsSurrogate_def EncodeRune_values)

lemma unquote_2028:
  "unquote (CHR 0x5C # CHR ''u'' # CHR ''2'' # CHR ''0'' # CHR ''2'' # CHR ''8'' # r)
     = map_option ((@) [CHR 0xE2, CHR 0x80, CHR 0xA8]) (unquote r)"
  by (simp add: getu4_values IsSurrogate_def EncodeRune_values)

lemma unquote_2029:
  "unquote (CHR 0x5C # CHR ''u'' # CHR ''2'' # CHR ''0'' # CHR ''2'' # CHR ''9'' # r)
     = map_option ((@) [CHR 0xE2, CHR 0x80, CHR 0xA9]) (unquote r)"
  by (simp add: getu4_values IsSurrogate_def EncodeRune_values)

lemma unquote_escape: "unquote (escape s) = Some (coerce s)"
proof (induction s rule: escape.induct)
  case 1
  show ?case by simp
next
  case (2 c cs)
  show ?case
  proof (cases "(of_char c :: nat) < 0x80")
    case True
    then have ih: "unquote (escape cs) = Some (coerce cs)" using 2(1) by simp
    show ?thesis
    proof (cases "htmlSafe c")
      case True
      then show ?thesis
        using \<open>(of_char c :: nat) < 0x80\<close> ih by (simp add: unquote_plain del: unquote.simps)
    next
      case False
      then show ?thesis
        using \<open>(of_char c :: nat) < 0x80\<close> ih
        by (auto simp add: unquote_escaped unquote_control unquote_u00 simp del: unquote.simps)
    qed
  next
    case high: False
    show ?thesis
    proof (cases "rune_len (c # cs) = 0")
      case True
      then have ih: "unquote (escape cs) = Some (coerce cs)" using 2(2) high by simp
      show ?thesis
        using high True ih by (simp add: unquote_fffd del: unquote.simps)
    next
      case wf: False
      let ?n = "rune_len (c # cs)"
      have n: "?n = 2 \<or> ?n = 3 \<or> ?n = 4" using wf rune_len_cases [of "c # cs"] by simp
      have tk: "take ?n (c # cs) = c # take (?n - 1) cs" using n by (cases ?n) auto
      show ?thesis
      proof (cases "take 3 (c # cs) = [CHR 0xE2, CHR 0x80, CHR 0xA8]")
        case ls: True
        then have ih: "unquote (escape (drop 2 cs)) = Some (coerce (drop 2 cs))"
          using 2(3) high wf by simp
        obtain r where cs: "c = CHR 0xE2" "cs = CHR 0x80 # CHR 0xA8 # r"
          using ls by (cases cs; cases "tl cs") (auto split: if_splits)
        have "well_formed 3 c cs"
          unfolding well_formed_def cs by (simp add: first_info_def in_range_def)
        then have three: "?n = 3" using well_formed_rune_len by blast
        show ?thesis
          using high wf ls ih three cs by (simp add: unquote_2028 del: unquote.simps)
      next
        case nls: False
        show ?thesis
        proof (cases "take 3 (c # cs) = [CHR 0xE2, CHR 0x80, CHR 0xA9]")
          case ps: True
          then have ih: "unquote (escape (drop 2 cs)) = Some (coerce (drop 2 cs))"
            using 2(4) high wf nls by simp
          obtain r where cs: "c = CHR 0xE2" "cs = CHR 0x80 # CHR 0xA9 # r"
            using ps by (cases cs; cases "tl cs") (auto split: if_splits)
          have "well_formed 3 c cs"
            unfolding well_formed_def cs by (simp add: first_info_def in_range_def)
          then have three: "?n = 3" using well_formed_rune_len by blast
          show ?thesis
            using high wf ps nls ih three cs by (simp add: unquote_2029 del: unquote.simps)
        next
          case nps: False
          have ih: "unquote (escape (drop (?n - 1) cs)) = Some (coerce (drop (?n - 1) cs))"
            using 2(5) high wf nls nps by simp
          have e: "escape (c # cs) = (c # take (?n - 1) cs) @ escape (drop (?n - 1) cs)"
            using high wf nls nps tk by simp
          have k: "coerce (c # cs) = (c # take (?n - 1) cs) @ coerce (drop (?n - 1) cs)"
            using high wf tk by simp
          show ?thesis
            unfolding e k using unquote_high [OF wf, of "escape (drop (?n - 1) cs)"] ih by simp
        qed
      qed
    qed
  qed
qed

lemma coerce_valid: "ValidString s \<Longrightarrow> coerce s = s"
proof (induction s rule: ValidString.induct)
  case 1
  show ?case by simp
next
  case (2 c cs)
  show ?case
  proof (cases "(of_char c :: nat) < 0x80")
    case True
    then show ?thesis using 2 by simp
  next
    case high: False
    then have wf: "rune_len (c # cs) \<noteq> 0" using 2(3) by (simp split: if_splits)
    let ?n = "rune_len (c # cs)"
    have n: "?n = 2 \<or> ?n = 3 \<or> ?n = 4" using wf rune_len_cases [of "c # cs"] by simp
    have tk: "take ?n (c # cs) = c # take (?n - 1) cs" using n by (cases ?n) auto
    have "coerce (drop (?n - 1) cs) = drop (?n - 1) cs" using 2 high wf by simp
    then show ?thesis using high wf tk by simp
  qed
qed

lemma in_string_plain:
  "\<lbrakk>c \<noteq> CHR 0x22; c \<noteq> CHR 0x5C; \<not> (of_char c :: nat) < 0x20\<rbrakk> \<Longrightarrow>
     step (InString acc, K) c = (InString (c # acc), K)"
  by simp

lemma in_string_high:
  "\<forall>b \<in> set bs. (0x80::nat) \<le> of_char b \<Longrightarrow>
     foldl step (InString acc, K) bs = (InString (rev bs @ acc), K)"
proof (induction bs arbitrary: acc)
  case Nil
  show ?case by simp
next
  case (Cons b bs)
  have b: "(0x80::nat) \<le> of_char b" using Cons.prems by simp
  then have "b \<noteq> CHR 0x22" "b \<noteq> CHR 0x5C" "\<not> (of_char b :: nat) < 0x20" by auto
  then have "step (InString acc, K) b = (InString (b # acc), K)" by (rule in_string_plain)
  then show ?case using Cons by simp
qed

lemma in_string_u00:
  assumes "b < 0x80"
  shows "foldl step (InString acc, K)
      (CHR 0x5C # CHR ''u'' # CHR ''0'' # CHR ''0'' # hex (b div 16) # hex (b mod 16) # r)
    = foldl step (InString (hex (b mod 16) # hex (b div 16) # CHR ''0'' # CHR ''0'' # CHR ''u''
        # CHR 0x5C # acc), K) r"
proof -
  have "b div 16 < 16" "b mod 16 < 16" using assms by auto
  then have h: "hexval (hex (b div 16)) = Some (b div 16)" "hexval (hex (b mod 16)) = Some (b mod 16)"
    using hexval_hex by auto
  show ?thesis by (simp add: hexval_digits h)
qed

lemma in_string_escape:
  "foldl step (InString acc, K) (escape s) = (InString (rev (escape s) @ acc), K)"
proof (induction s arbitrary: acc rule: escape.induct)
  case 1
  show ?case by simp
next
  case (2 c cs)
  show ?case
  proof (cases "(of_char c :: nat) < 0x80")
    case True
    note ih = 2(1) [OF True]
    show ?thesis
    proof (cases "htmlSafe c")
      case True
      then have "step (InString acc, K) c = (InString (c # acc), K)"
        by (intro in_string_plain) (auto simp add: htmlSafe_def)
      then show ?thesis
        using \<open>(of_char c :: nat) < 0x80\<close> True ih by (simp del: step.simps)
    next
      case False
      show ?thesis
      proof (cases "c = CHR 0x5C \<or> c = CHR 0x22 \<or> c = CHR 0x0A \<or> c = CHR 0x0D \<or> c = CHR 0x09")
        case True
        then show ?thesis
          using \<open>(of_char c :: nat) < 0x80\<close> False ih by (auto simp add: htmlSafe_def)
      next
        case other: False
        have e: "escape (c # cs) = CHR 0x5C # CHR ''u'' # CHR ''0'' # CHR ''0''
            # hex (of_char c div 16) # hex (of_char c mod 16) # escape cs"
          using \<open>(of_char c :: nat) < 0x80\<close> False other by simp
        show ?thesis
          unfolding e using in_string_u00 [OF \<open>(of_char c :: nat) < 0x80\<close>, of acc K "escape cs"] ih
          by (simp del: step.simps foldl_Cons)
      qed
    qed
  next
    case high: False
    show ?thesis
    proof (cases "rune_len (c # cs) = 0")
      case True
      note ih = 2(2) [OF high True]
      show ?thesis using high True ih by (simp add: hexval_digits)
    next
      case wf: False
      let ?n = "rune_len (c # cs)"
      have n: "?n = 2 \<or> ?n = 3 \<or> ?n = 4" using wf rune_len_cases [of "c # cs"] by simp
      have tk: "take ?n (c # cs) = c # take (?n - 1) cs" using n by (cases ?n) auto
      show ?thesis
      proof (cases "take 3 (c # cs) = [CHR 0xE2, CHR 0x80, CHR 0xA8]")
        case ls: True
        note ih = 2(3) [OF high wf ls]
        have e: "escape (c # cs) = CHR 0x5C # ''u2028'' @ escape (drop 2 cs)"
          using high wf ls by simp
        show ?thesis unfolding e using ih by (simp add: hexval_digits)
      next
        case nls: False
        show ?thesis
        proof (cases "take 3 (c # cs) = [CHR 0xE2, CHR 0x80, CHR 0xA9]")
          case ps: True
          note ih = 2(4) [OF high wf nls ps]
          have e: "escape (c # cs) = CHR 0x5C # ''u2029'' @ escape (drop 2 cs)"
            using high wf nls ps by simp
          show ?thesis unfolding e using ih by (simp add: hexval_digits)
        next
          case nps: False
          note ih = 2(5) [OF high wf nls nps]
          have e: "escape (c # cs) = (c # take (?n - 1) cs) @ escape (drop (?n - 1) cs)"
            using high wf nls nps tk by simp
          have wfd: "well_formed ?n c cs" using rune_len_well_formed [OF wf] .
          have len: "?n - 1 \<le> length cs" using well_formed_size [OF wfd] by auto
          have "\<forall>b \<in> set (take (?n - 1) cs). (0x80::nat) \<le> of_char b"
          proof
            fix b assume "b \<in> set (take (?n - 1) cs)"
            then obtain i where "i < ?n - 1" "b = cs ! i"
              using len by (auto simp add: in_set_conv_nth)
            then show "(0x80::nat) \<le> of_char b" using well_formed_high(2) [OF wfd] by simp
          qed
          then have all: "\<forall>b \<in> set (c # take (?n - 1) cs). (0x80::nat) \<le> of_char b"
            using well_formed_high(1) [OF wfd] by simp
          show ?thesis
            unfolding e foldl_append in_string_high [OF all] using ih by simp
        qed
      qed
    qed
  qed
qed

lemma scan_string:
  "foldl step (InString [], K) (escape s @ CHR 0x22 # r) = foldl step (finish (JString (coerce s)) K) r"
  by (simp add: in_string_escape unquote_escape)

lemma scan_plain:
  "foldl step (BeginValue, K) (quoted s) = finish (JString (coerce s)) K"
  "foldl step (BeginString, K) (quoted s) = finish (JString (coerce s)) K"
  "foldl step (BeginStringOrEmpty, K) (quoted s) = finish (JString (coerce s)) K"
  using scan_string [of K s "[]"]
  by (simp_all add: quoted_def stateBeginValue_def stateBeginString_def isSpace_def)

lemma scan_bool:
  "foldl step (BeginValue, K) (bool_text b) = finish (JBool b) K"
  by (cases b) (simp_all add: bool_text_def stateBeginValue_def isSpace_def)

lemma scan_Service:
  assumes "l = BeginValue \<or> l = BeginValueOrEmpty"
  shows "foldl step (l, [ArrayValue es]) (Service_text s)
     = (EndValue, [ArrayValue (Service_value s # es)])"
proof -
  have open_brace: "step (l, [ArrayValue es]) (CHR ''{'') = (BeginStringOrEmpty, [ObjectKey [], ArrayValue es])"
    using assms by (auto simp add: stateBeginValue_def isSpace_def push_def maxNestingDepth_def)
  show ?thesis
    by (simp add: Service_text_def Service_value_def scan_plain scan_bool open_brace
        stateBeginValue_def stateBeginString_def isSpace_def)
qed

lemma scan_elements:
  "\<lbrakk>xs \<noteq> []; l = BeginValue \<or> l = BeginValueOrEmpty\<rbrakk> \<Longrightarrow>
     foldl step (l, [ArrayValue es]) (elements_text xs)
       = (EndValue, [ArrayValue (rev (map Service_value xs) @ es)])"
proof (induction xs arbitrary: es l rule: elements_text.induct)
  case 1
  then show ?case by simp
next
  case (2 s)
  then show ?case using scan_Service [of l es s] by simp
next
  case (3 s t ss)
  have first: "foldl step (l, [ArrayValue es]) (Service_text s)
      = (EndValue, [ArrayValue (Service_value s # es)])"
    using scan_Service [of l es s] 3(3) by simp
  have rest: "foldl step (BeginValue, [ArrayValue (Service_value s # es)]) (elements_text (t # ss))
      = (EndValue, [ArrayValue (rev (map Service_value (t # ss)) @ Service_value s # es)])"
    using 3(1) [of BeginValue "Service_value s # es"] by simp
  show ?case
    using first rest
    by (simp add: stateBeginValue_def isSpace_def del: elements_text.simps(3) foldl_Cons)
       (simp add: stateBeginValue_def isSpace_def)
qed

lemma checkValid_MarshalIndent:
  "checkValid (MarshalIndent xs) = Some (JArray (map Service_value xs))"
proof (cases "xs = []")
  case True
  then show ?thesis
    by (simp add: MarshalIndent_def checkValid_def scan_start_def eof_def stateBeginValue_def
        isSpace_def push_def maxNestingDepth_def)
next
  case False
  have start: "foldl step scan_start ''[\<newline>  '' = (BeginValueOrEmpty, [ArrayValue []])"
    by (simp add: scan_start_def stateBeginValue_def isSpace_def push_def maxNestingDepth_def)
  have body: "foldl step (BeginValueOrEmpty, [ArrayValue []]) (elements_text xs)
      = (EndValue, [ArrayValue (rev (map Service_value xs))])"
    using scan_elements [OF False, of BeginValueOrEmpty "[]"] by simp
  have close: "foldl step (EndValue, [ArrayValue (rev (map Service_value xs))]) ''\<newline>]''
      = (EndTop (JArray (map Service_value xs)), [])"
    by (simp add: isSpace_def)
  have shape: "MarshalIndent xs = ''[\<newline>  '' @ elements_text xs @ ''\<newline>]''"
    using False by (simp add: MarshalIndent_def)
  have "foldl step scan_start (MarshalIndent xs) = (EndTop (JArray (map Service_value xs)), [])"
    unfolding shape foldl_append start body close ..
  then show ?thesis
    by (simp add: checkValid_def eof_def isSpace_def)
qed

lemma foldName_fields:
  "foldName ''name'' = ''NAME''" "foldName ''url'' = ''URL''" "foldName ''status'' = ''STATUS''"
  by code_simp+

lemma decode_Service_value:
  "decode_Service (Service_value s) zero_Service None = (coerce_Service s, None)"
  by (simp add: decode_Service_def Service_value_def Service_member_def foldName_fields
      store_string_def store_bool_def zero_Service_def coerce_Service_def del: foldName.simps)

lemma decode_elements_values:
  "decode_elements (map Service_value xs) None = (map coerce_Service xs, None)"
  by (induction xs) (simp_all add: decode_Service_value)

lemma Unmarshal_MarshalIndent:
  "Unmarshal (MarshalIndent xs) cur = (map coerce_Service xs, None)"
  by (simp add: Unmarshal_def checkValid_MarshalIndent decode_services_def decode_elements_values)

lemma coerce_Service_valid:
  "ValidString (Name s) \<and> ValidString (URL s) \<Longrightarrow> coerce_Service s = s"
  by (simp add: coerce_Service_def coerce_valid)

lemma persist_load:
  assumes "fst (saveToFile m w) = None" "\<not> read_denied w (filename m)"
  shows "fst (LoadFromFile (NewMonitor (filename m)) (snd (saveToFile m w))) = None"
    and "services (fst (snd (LoadFromFile (NewMonitor (filename m)) (snd (saveToFile m w)))))
      = map coerce_Service (services m)"
proof -
  have wr: "\<not> write_denied w (filename m)" using assms(1) by (simp add: saveToFile_ok)
  have w': "snd (saveToFile m w) = w\<lparr>files := (files w)(filename m \<mapsto> MarshalIndent (services m))\<rparr>"
    using wr by (simp add: saveToFile_def WriteFile_def)
  show "fst (LoadFromFile (NewMonitor (filename m)) (snd (saveToFile m w))) = None"
    unfolding w' using assms(2)
    by (simp add: LoadFromFile_def NewMonitor_def StatIsNotExist_def ReadFile_def
        Unmarshal_MarshalIndent)
  show "services (fst (snd (LoadFromFile (NewMonitor (filename m)) (snd (saveToFile m w)))))
      = map coerce_Service (services m)"
    unfolding w' using assms(2)
    by (simp add: LoadFromFile_def NewMonitor_def StatIsNotExist_def ReadFile_def
        Unmarshal_MarshalIndent)
qed

text \<open>
  Claim C4, as amended: for every sequence of services whose names and URLs are
  well-formed UTF-8, persisting it with a write that succeeds and loading the file, when it
  can be read, into a fresh registry succeeds and yields the sequence that was persisted:
  the same length, the same order and the same name, URL and status in every entry.
\<close>

theorem persist_load_roundtrip:
  "fst (saveToFile m w) = None \<and> \<not> read_denied w (filename m)
     \<and> (\<forall>s \<in> set (services m). ValidString (Name s) \<and> ValidString (URL s)) \<longrightarrow>
   fst (LoadFromFile (NewMonitor (filename m)) (snd (saveToFile m w))) = None
   \<and> services (fst (snd (LoadFromFile (NewMonitor (filename m)) (snd (saveToFile m w)))))
       = services m"
proof (intro impI, elim conjE)
  assume ok: "fst (saveToFile m w) = None" and rd: "\<not> read_denied w (filename m)"
    and valid: "\<forall>s \<in> set (services m). ValidString (Name s) \<and> ValidString (URL s)"
  have "map coerce_Service (services m) = services m"
    using valid coerce_Service_valid by (simp add: map_idI)
  then show "fst (LoadFromFile (NewMonitor (filename m)) (snd (saveToFile m w))) = None
   \<and> services (fst (snd (LoadFromFile (NewMonitor (filename m)) (snd (saveToFile m w)))))
       = services m"
    using persist_load [OF ok rd] by simp
qed

theorem persist_load_roundtrip_witness:
  "fst (saveToFile tricky quiet_world) = None
   \<and> fst (LoadFromFile (NewMonitor (filename tricky)) (snd (saveToFile tricky quiet_world))) = None
   \<and> services (fst (snd (LoadFromFile (NewMonitor (filename tricky))
        (snd (saveToFile tricky quiet_world))))) = services tricky"
proof -
  have ok: "fst (saveToFile tricky quiet_world) = None"
    by (simp add: saveToFile_ok quiet_world_def)
  have rd: "\<not> read_denied quiet_world (filename tricky)"
    by (simp add: quiet_world_def)
  have valid: "\<forall>s \<in> set (services tricky). ValidString (Name s) \<and> ValidString (URL s)"
    by code_simp
  show ?thesis
    using persist_load_roundtrip [of tricky quiet_world] ok rd valid by blast
qed

text \<open>
  The claim as stated fails for a name that is not well-formed UTF-8: the byte \<open>0xFF\<close> is
  written as the escape of U+FFFD and comes back as the three bytes of that character.
\<close>

theorem persist_load_ill_formed:
  "fst (saveToFile ill_formed quiet_world) = None
   \<and> fst (LoadFromFile (NewMonitor (filename ill_formed)) (snd (saveToFile ill_formed quiet_world)))
       = None
   \<and> services (fst (snd (LoadFromFile (NewMonitor (filename ill_formed))
        (snd (saveToFile ill_formed quiet_world)))))
       = [\<lparr>Name = [CHR 0xEF, CHR 0xBF, CHR 0xBD], URL = ''http://a'', Status = False\<rparr>]
   \<and> services (fst (snd (LoadFromFile (NewMonitor (filename ill_formed))
        (snd (saveToFile ill_formed quiet_world)))))
       \<noteq> services ill_formed"
proof -
  have ok: "fst (saveToFile ill_formed quiet_world) = None"
    by (simp add: saveToFile_ok quiet_world_def)
  have rd: "\<not> read_denied quiet_world (filename ill_formed)"
    by (simp add: quiet_world_def)
  have replaced: "map coerce_Service (services ill_formed)
      = [\<lparr>Name = [CHR 0xEF, CHR 0xBF, CHR 0xBD], URL = ''http://a'', Status = False\<rparr>]"
    by code_simp
  have differs: "map coerce_Service (services ill_formed) \<noteq> services ill_formed"
    unfolding replaced by (simp add: ill_formed_def)
  show ?thesis
    using persist_load [OF ok rd] ok replaced differs by simp
qed

section \<open>Concurrent adds serialise\<close>

lemma invariant_start: "invariant calls m (start calls m w)"
  by (simp add: invariant_def start_def crit_def serial_def appended_def)

lemma crit_simps [simp]:
  "\<not> crit AtLock" "crit AtRead" "crit AtWrite" "crit AtSave" "crit AtUnlock" "\<not> crit Returned"
  by (simp_all add: crit_def)

lemma appended_simps [simp]:
  "\<not> appended AtLock" "\<not> appended AtRead" "\<not> appended AtWrite" "appended AtSave"
  "appended AtUnlock" "appended Returned"
  by (simp_all add: appended_def)

lemma serial_same:
  assumes "serial calls m c" "mon c' = mon c" "length (pcs c) = length calls"
    "pcs c' = (pcs c)[i := p]" "appended p = appended (pcs c ! i)"
  shows "serial calls m c'"
proof -
  have "appended ((pcs c)[i := p] ! j) = appended (pcs c ! j)" if "j < length calls" for j
    using that assms(3,5) by (cases "j = i") simp_all
  then have "{j. j < length calls \<and> appended (pcs c' ! j)} = {j. j < length calls \<and> appended (pcs c ! j)}"
    using assms(4) by auto
  then show ?thesis using assms(1,2) unfolding serial_def by simp
qed

lemma crit_moved:
  assumes "length (pcs c) = length calls" "i < length calls" "crit p"
    "\<forall>j<length calls. crit (pcs c ! j) \<longrightarrow> j = i" "j < length calls"
  shows "crit ((pcs c)[i := p] ! j) = (j = i)"
  using assms by (cases "j = i") auto

lemma crit_left:
  assumes "length (pcs c) = length calls" "i < length calls" "\<not> crit p"
    "\<forall>j<length calls. crit (pcs c ! j) \<longrightarrow> j = i" "j < length calls"
  shows "\<not> crit ((pcs c)[i := p] ! j)"
  using assms by (cases "j = i") auto

lemma step_core:
  assumes len: "length (pcs c) = length calls" and i: "i < length calls"
    and only: "\<forall>j<length calls. crit (pcs c ! j) \<longrightarrow> j = i"
    and upd: "pcs c' = (pcs c)[i := p]"
    and wr: "p = AtWrite \<longrightarrow> slices c' ! i = services (mon c')"
  shows "\<forall>j<length calls. \<forall>k<length calls. crit (pcs c' ! j) \<and> crit (pcs c' ! k) \<longrightarrow> j = k"
    and "(\<exists>j<length calls. crit (pcs c' ! j)) = crit p"
    and "\<forall>j<length calls. pcs c' ! j = AtWrite \<longrightarrow> slices c' ! j = services (mon c')"
proof -
  have at: "crit (pcs c' ! j) = (j = i \<and> crit p)" if "j < length calls" for j
  proof (cases "crit p")
    case True
    then show ?thesis using crit_moved [OF len i True only that] upd by simp
  next
    case False
    then show ?thesis using crit_left [OF len i False only that] upd by simp
  qed
  show "\<forall>j<length calls. \<forall>k<length calls. crit (pcs c' ! j) \<and> crit (pcs c' ! k) \<longrightarrow> j = k"
    using at by simp
  show "(\<exists>j<length calls. crit (pcs c' ! j)) = crit p"
    using at i by auto
  show "\<forall>j<length calls. pcs c' ! j = AtWrite \<longrightarrow> slices c' ! j = services (mon c')"
  proof (intro allI impI)
    fix j assume j: "j < length calls" and w: "pcs c' ! j = AtWrite"
    then have "crit (pcs c' ! j)" by simp
    then have ji: "j = i" using at [OF j] by simp
    then have "p = AtWrite" using w upd len i by simp
    then show "slices c' ! j = services (mon c')" using wr ji by simp
  qed
qed

lemma invariant_step:
  assumes inv: "invariant calls m c" and st: "add_step calls c c'"
  shows "invariant calls m c'"
proof -
  have len: "length (pcs c) = length calls" and sl: "length (slices c) = length calls"
    and lk: "locked c = (\<exists>i<length calls. crit (pcs c ! i))"
    and ex: "\<forall>i<length calls. \<forall>j<length calls. crit (pcs c ! i) \<and> crit (pcs c ! j) \<longrightarrow> i = j"
    and wr: "\<forall>i<length calls. pcs c ! i = AtWrite \<longrightarrow> slices c ! i = services (mon c)"
    and ser: "serial calls m c"
    using inv unfolding invariant_def by blast+
  from st show ?thesis
  proof cases
    case (Lock i)
    have only: "\<forall>j<length calls. crit (pcs c ! j) \<longrightarrow> j = i" using lk Lock(4) by simp
    have upd: "pcs c' = (pcs c)[i := AtRead]" using Lock(1) by simp
    note core = step_core [OF len Lock(2) only upd]
    have s: "serial calls m c'"
      using serial_same [OF ser _ len upd] Lock(1,3) by simp
    show ?thesis
      unfolding invariant_def using core s len sl Lock(1) by simp
  next
    case (Read i)
    have ci: "crit (pcs c ! i)" using Read(3) by simp
    have only: "\<forall>j<length calls. crit (pcs c ! j) \<longrightarrow> j = i" using ex ci Read(2) by blast
    have upd: "pcs c' = (pcs c)[i := AtWrite]" using Read(1) by simp
    have w: "AtWrite = AtWrite \<longrightarrow> slices c' ! i = services (mon c')"
      using Read(1,2) sl by simp
    note core = step_core [OF len Read(2) only upd w]
    have s: "serial calls m c'"
      using serial_same [OF ser _ len upd] Read(1,3) by simp
    have l: "locked c'" using lk ci Read(1,2) by auto
    show ?thesis
      unfolding invariant_def using core s len sl l Read(1) by simp
  next
    case (Write i)
    have ci: "crit (pcs c ! i)" using Write(3) by simp
    have only: "\<forall>j<length calls. crit (pcs c ! j) \<longrightarrow> j = i" using ex ci Write(2) by blast
    have upd: "pcs c' = (pcs c)[i := AtSave]" using Write(1) by simp
    note core = step_core [OF len Write(2) only upd]
    have cur: "slices c ! i = services (mon c)" using wr Write(2,3) by simp
    obtain order where o: "distinct order" "set order = {j. j < length calls \<and> appended (pcs c ! j)}"
      "services (mon c) = services m @ map (\<lambda>i. new_service (calls ! i)) order"
      using ser unfolding serial_def by blast
    have notin: "i \<notin> set order" using o(2) Write(3) by simp
    have "appended ((pcs c)[i := AtSave] ! j) = (j = i \<or> appended (pcs c ! j))" if "j < length calls" for j
      using that len by (cases "j = i") simp_all
    then have s2: "set (order @ [i]) = {j. j < length calls \<and> appended (pcs c' ! j)}"
      using o(2) Write(2) upd by auto
    have s3: "services (mon c') = services m @ map (\<lambda>i. new_service (calls ! i)) (order @ [i])"
      using Write(1) cur o(3) by simp
    have s: "serial calls m c'"
      unfolding serial_def using o(1) notin s2 s3 by (intro exI [of _ "order @ [i]"]) simp
    have l: "locked c'" using lk ci Write(1,2) by auto
    show ?thesis
      unfolding invariant_def using core s len sl l Write(1) by simp
  next
    case (Save i)
    have ci: "crit (pcs c ! i)" using Save(3) by simp
    have only: "\<forall>j<length calls. crit (pcs c ! j) \<longrightarrow> j = i" using ex ci Save(2) by blast
    have upd: "pcs c' = (pcs c)[i := AtUnlock]" using Save(1) by simp
    note core = step_core [OF len Save(2) only upd]
    have s: "serial calls m c'"
      using serial_same [OF ser _ len upd] Save(1,3) by simp
    have l: "locked c'" using lk ci Save(1,2) by auto
    show ?thesis
      unfolding invariant_def using core s len sl l Save(1) by simp
  next
    case (Unlock i)
    have ci: "crit (pcs c ! i)" using Unlock(3) by simp
    have only: "\<forall>j<length calls. crit (pcs c ! j) \<longrightarrow> j = i" using ex ci Unlock(2) by blast
    have upd: "pcs c' = (pcs c)[i := Returned]" using Unlock(1) by simp
    note core = step_core [OF len Unlock(2) only upd]
    have s: "serial calls m c'"
      using serial_same [OF ser _ len upd] Unlock(1,3) by simp
    show ?thesis
      unfolding invariant_def using core s len sl Unlock(1) by simp
  qed
qed

lemma invariant_reachable:
  "rtranclp (add_step calls) (start calls m w) c \<Longrightarrow> invariant calls m c"
  by (induction rule: rtranclp_induct) (auto intro: invariant_start invariant_step)

lemma run_call_steps:
  assumes i: "i < length calls" and at: "pcs c ! i = AtLock" and free: "\<not> locked c"
    and len: "length (pcs c) = length calls" "length (slices c) = length calls"
  shows "rtranclp (add_step calls) c (run_call calls i c)"
proof -
  let ?c1 = "c\<lparr>locked := True, pcs := (pcs c)[i := AtRead]\<rparr>"
  let ?c2 = "?c1\<lparr>pcs := (pcs ?c1)[i := AtWrite], slices := (slices ?c1)[i := services (mon ?c1)]\<rparr>"
  let ?c3 = "?c2\<lparr>mon := (mon ?c2)\<lparr>services := slices ?c2 ! i @ [new_service (calls ! i)]\<rparr>,
                   pcs := (pcs ?c2)[i := AtSave]\<rparr>"
  let ?c4 = "?c3\<lparr>world := snd (saveToFile (mon ?c3) (world ?c3)), pcs := (pcs ?c3)[i := AtUnlock]\<rparr>"
  let ?c5 = "?c4\<lparr>locked := False, pcs := (pcs ?c4)[i := Returned]\<rparr>"
  have s1: "add_step calls c ?c1" using i at free by (rule add_step.Lock)
  have s2: "add_step calls ?c1 ?c2" using i len by (intro add_step.Read) simp_all
  have s3: "add_step calls ?c2 ?c3" using i len by (intro add_step.Write) simp_all
  have s4: "add_step calls ?c3 ?c4" using i len by (intro add_step.Save) simp_all
  have s5: "add_step calls ?c4 ?c5" using i len by (intro add_step.Unlock) simp_all
  have last: "?c5 = run_call calls i c"
    using i len
    by (simp add: run_call_def AddService_def Let_def new_service_def)
  have "rtranclp (add_step calls) c ?c5"
    using s1 s2 s3 s4 s5 by (meson rtranclp.rtrancl_into_rtrancl rtranclp.rtrancl_refl)
  then show ?thesis using last by simp
qed

lemma progress:
  assumes "invariant calls m c"
  shows "(\<forall>i<length calls. pcs c ! i = Returned) \<or> (\<exists>c'. add_step calls c c')"
proof (cases "locked c")
  case True
  then obtain i where i: "i < length calls" "crit (pcs c ! i)"
    using assms unfolding invariant_def by blast
  then consider "pcs c ! i = AtRead" | "pcs c ! i = AtWrite" | "pcs c ! i = AtSave" | "pcs c ! i = AtUnlock"
    unfolding crit_def by blast
  then have "\<exists>c'. add_step calls c c'"
    using i(1) by cases (blast intro: add_step.intros)+
  then show ?thesis ..
next
  case False
  show ?thesis
  proof (cases "\<forall>i<length calls. pcs c ! i = Returned")
    case True
    then show ?thesis ..
  next
    case not_all: False
    then obtain i where i: "i < length calls" "pcs c ! i \<noteq> Returned" by blast
    have "\<not> crit (pcs c ! i)" using assms False i(1) unfolding invariant_def by blast
    then have "pcs c ! i = AtLock" using i(2) by (cases "pcs c ! i") simp_all
    then have "add_step calls c (c\<lparr>locked := True, pcs := (pcs c)[i := AtRead]\<rparr>)"
      using i(1) False by (intro add_step.Lock)
    then show ?thesis by blast
  qed
qed

text \<open>
  Claim C9: from any initial registry, in every interleaving of \<open>N\<close> concurrent calls of
  \<open>AddService\<close> under the lock, once all calls have returned the sequence is the initial
  one followed by the \<open>N\<close> new entries, each exactly once, in some order: its length is
  the initial length plus \<open>N\<close>. No reachable configuration is stuck before all calls have
  returned.
\<close>

theorem concurrent_adds:
  "(rtranclp (add_step calls) (start calls m w) c \<and> (\<forall>i<length calls. pcs c ! i = Returned) \<longrightarrow>
      length (services (mon c)) = length (services m) + length calls
      \<and> (\<exists>order. distinct order \<and> set order = {..<length calls}
            \<and> services (mon c) = services m @ map (\<lambda>i. new_service (calls ! i)) order))
   \<and> (rtranclp (add_step calls) (start calls m w) c \<longrightarrow>
      (\<forall>i<length calls. pcs c ! i = Returned) \<or> (\<exists>c'. add_step calls c c'))"
proof (intro conjI impI)
  assume "rtranclp (add_step calls) (start calls m w) c"
  then show "(\<forall>i<length calls. pcs c ! i = Returned) \<or> (\<exists>c'. add_step calls c c')"
    using progress [OF invariant_reachable] by blast
next
  assume a: "rtranclp (add_step calls) (start calls m w) c \<and> (\<forall>i<length calls. pcs c ! i = Returned)"
  then have inv: "invariant calls m c" using invariant_reachable by blast
  then obtain order where o: "distinct order"
    "set order = {i. i < length calls \<and> appended (pcs c ! i)}"
    "services (mon c) = services m @ map (\<lambda>i. new_service (calls ! i)) order"
    unfolding invariant_def serial_def by blast
  have all: "set order = {..<length calls}" using o(2) a by auto
  have "length order = card (set order)" using o(1) by (simp add: distinct_card)
  then have n: "length order = length calls" using all by simp
  show "length (services (mon c)) = length (services m) + length calls"
    using o(3) n by simp
  show "\<exists>order. distinct order \<and> set order = {..<length calls}
      \<and> services (mon c) = services m @ map (\<lambda>i. new_service (calls ! i)) order"
    using o(1,3) all by blast
qed

theorem concurrent_adds_witness:
  "rtranclp (add_step two_calls) (start two_calls one quiet_world) second_first
   \<and> pcs second_first = [Returned, Returned]
   \<and> length (services (mon second_first)) = length (services one) + length two_calls
   \<and> services (mon second_first)
       = services one @ [new_service (''c'', ''http://c''), new_service (''b'', ''http://b'')]"
proof -
  let ?c0 = "start two_calls one quiet_world"
  let ?c1 = "run_call two_calls 1 ?c0"
  have r1: "rtranclp (add_step two_calls) ?c0 ?c1"
    by (rule run_call_steps) (simp_all add: two_calls_def start_def)
  have r2: "rtranclp (add_step two_calls) ?c1 second_first"
    unfolding second_first_def
    by (rule run_call_steps) (simp_all add: two_calls_def start_def run_call_def split: prod.splits)
  have reach: "rtranclp (add_step two_calls) ?c0 second_first"
    using r1 r2 by (rule rtranclp_trans)
  have fin: "pcs second_first = [Returned, Returned]"
    by (simp add: second_first_def run_call_def start_def two_calls_def split: prod.splits)
  then have all: "\<forall>i<length two_calls. pcs second_first ! i = Returned"
    by (simp add: two_calls_def less_Suc_eq)
  have order: "services (mon second_first)
       = services one @ [new_service (''c'', ''http://c''), new_service (''b'', ''http://b'')]"
    by (simp add: second_first_def run_call_def start_def two_calls_def AddService_def Let_def
        new_service_def split: prod.splits)
  show ?thesis
    using concurrent_adds [of two_calls one quiet_world second_first] reach all fin order
    by blast
qed

end
